theory Spec2Isabelle
  imports Complex_Main "HOL-Library.Word"
begin

section \<open>JavaScript strings\<close>

text \<open>
  A JavaScript string is a sequence of UTF-16 code units. String literals of the source
  are written \<open>js ''...''\<close>.
\<close>

type_synonym jsstring = "16 word list"

definition js :: "string \<Rightarrow> jsstring" where
  "js s = map (\<lambda>c. of_nat (of_char c)) s"

text \<open>\<open>s.startsWith(p)\<close> and \<open>s.includes(p)\<close>.\<close>

fun startsWith :: "'a list \<Rightarrow> 'a list \<Rightarrow> bool" where
  "startsWith s [] = True"
| "startsWith [] (p # ps) = False"
| "startsWith (c # cs) (p # ps) = (c = p \<and> startsWith cs ps)"

fun includes_str :: "'a list \<Rightarrow> 'a list \<Rightarrow> bool" where
  "includes_str [] p = (p = [])"
| "includes_str (c # cs) p = (startsWith (c # cs) p \<or> includes_str cs p)"

text \<open>\<open>parts.join(sep)\<close>.\<close>

fun join :: "'a list list \<Rightarrow> 'a list \<Rightarrow> 'a list" where
  "join [] sep = []"
| "join [x] sep = x"
| "join (x # y # ys) sep = x @ sep @ join (y # ys) sep"


section \<open>Configuration and model mapping\<close>

record deployments_t =
  opus :: jsstring
  sonnet :: jsstring
  haiku :: jsstring

record AzureConfig =
  endpoint :: jsstring
  apiKey :: jsstring
  apiVersion :: jsstring
  deployments :: deployments_t

text \<open>\<open>mapModel\<close> (proxy.ts, lines 26-30).\<close>

definition mapModel :: "jsstring \<Rightarrow> AzureConfig \<Rightarrow> jsstring" where
  "mapModel model config =
     (if includes_str model (js ''opus'') then opus (deployments config)
      else if includes_str model (js ''haiku'') then haiku (deployments config)
      else sonnet (deployments config))"


section \<open>Request translation\<close>

datatype anthropic_role = User | Assistant

record content_block_in =
  block_type :: jsstring
  block_text :: "jsstring option"

datatype message_content = StringContent jsstring | BlockContent "content_block_in list"

record AnthropicMessage =
  role :: anthropic_role
  content :: message_content

datatype openai_role = RoleUser | RoleAssistant | RoleSystem

record OpenAIMessage =
  oai_role :: openai_role
  oai_content :: jsstring

text \<open>
  The fields of the inbound request body that the proxy reads. A field that may be
  absent from the JSON body is an \<open>option\<close>; \<open>None\<close> is JavaScript's \<open>undefined\<close>
  (or \<open>null\<close>).
\<close>

record anthropicReq =
  model :: jsstring
  messages :: "AnthropicMessage list"
  system :: "jsstring option"
  max_tokens :: "int option"
  temperature :: "real option"
  stream :: "bool option"

record openaiReq =
  oai_model :: jsstring
  oai_messages :: "OpenAIMessage list"
  oai_max_tokens :: int
  oai_temperature :: real
  oai_stream :: bool

text \<open>\<open>convertMessages\<close> (proxy.ts, lines 33-55).\<close>

definition convert_role :: "anthropic_role \<Rightarrow> openai_role" where
  "convert_role r = (case r of User \<Rightarrow> RoleUser | Assistant \<Rightarrow> RoleAssistant)"

definition flatten_content :: "message_content \<Rightarrow> jsstring" where
  "flatten_content c =
     (case c of
        StringContent s \<Rightarrow> s
      | BlockContent blocks \<Rightarrow>
          join (map (\<lambda>block. case block_text block of None \<Rightarrow> [] | Some t \<Rightarrow> t)
                  (filter (\<lambda>block. block_type block = js ''text'') blocks))
               (js ''\<newline>''))"

definition convertMessages :: "AnthropicMessage list \<Rightarrow> jsstring option \<Rightarrow> OpenAIMessage list" where
  "convertMessages msgs sys =
     (case sys of
        None \<Rightarrow> []
      | Some s \<Rightarrow> if s = [] then [] else [\<lparr>oai_role = RoleSystem, oai_content = s\<rparr>])
     @ map (\<lambda>msg. \<lparr>oai_role = convert_role (role msg), oai_content = flatten_content (content msg)\<rparr>) msgs"

text \<open>
  The object literal \<open>openaiReq\<close> built in \<open>createProxy\<close> (proxy.ts, lines 118-124).
  \<open>max_tokens\<close> is defaulted with \<open>||\<close>, which replaces every falsy value (so also 0);
  \<open>temperature\<close> is defaulted with \<open>??\<close>, which replaces only \<open>undefined\<close> and \<open>null\<close>.
\<close>

definition buildOpenAIReq :: "AzureConfig \<Rightarrow> anthropicReq \<Rightarrow> openaiReq" where
  "buildOpenAIReq azure req =
     \<lparr>oai_model = mapModel (model req) azure,
      oai_messages = convertMessages (messages req) (system req),
      oai_max_tokens = (case max_tokens req of None \<Rightarrow> 4096 | Some n \<Rightarrow> if n = 0 then 4096 else n),
      oai_temperature = (case temperature req of None \<Rightarrow> 1 | Some t \<Rightarrow> t),
      oai_stream = (stream req = Some True)\<rparr>"


section \<open>Decoding upstream bytes and splitting lines\<close>

type_synonym byte = "8 word"

text \<open>
  \<open>chunk.toString()\<close> on a Node.js \<open>Buffer\<close> decodes the bytes of that one chunk as
  UTF-8; every ill-formed or truncated sequence becomes U+FFFD. The decoder below is the
  standard one: \<open>utf8_lead\<close> classifies a first byte (the code point so far, the number
  of continuation bytes still needed, and the range allowed for the next byte), and
  \<open>utf8_decode\<close> carries that state over the bytes.
\<close>

datatype utf8_start = Emit nat | Need nat nat nat nat | Invalid

definition utf8_lead :: "nat \<Rightarrow> utf8_start" where
  "utf8_lead b =
     (if b \<le> 0x7F then Emit b
      else if 0xC2 \<le> b \<and> b \<le> 0xDF then Need (b mod 32) 1 0x80 0xBF
      else if 0xE0 \<le> b \<and> b \<le> 0xEF then
        Need (b mod 16) 2 (if b = 0xE0 then 0xA0 else 0x80) (if b = 0xED then 0x9F else 0xBF)
      else if 0xF0 \<le> b \<and> b \<le> 0xF4 then
        Need (b mod 8) 3 (if b = 0xF0 then 0x90 else 0x80) (if b = 0xF4 then 0x8F else 0xBF)
      else Invalid)"

fun utf8_decode :: "(nat \<times> nat \<times> nat \<times> nat) option \<Rightarrow> nat list \<Rightarrow> nat list" where
  "utf8_decode None [] = []"
| "utf8_decode (Some s) [] = [0xFFFD]"
| "utf8_decode None (b # bs) =
     (case utf8_lead b of
        Emit c \<Rightarrow> c # utf8_decode None bs
      | Need c n lo hi \<Rightarrow> utf8_decode (Some (c, n, lo, hi)) bs
      | Invalid \<Rightarrow> 0xFFFD # utf8_decode None bs)"
| "utf8_decode (Some (c, n, lo, hi)) (b # bs) =
     (if lo \<le> b \<and> b \<le> hi then
        (if n = 1 then (c * 64 + b mod 64) # utf8_decode None bs
         else utf8_decode (Some (c * 64 + b mod 64, n - 1, 0x80, 0xBF)) bs)
      else
        0xFFFD #
        (case utf8_lead b of
           Emit c' \<Rightarrow> c' # utf8_decode None bs
         | Need c' n' lo' hi' \<Rightarrow> utf8_decode (Some (c', n', lo', hi')) bs
         | Invalid \<Rightarrow> 0xFFFD # utf8_decode None bs))"

definition utf16_units :: "nat \<Rightarrow> jsstring" where
  "utf16_units c =
     (if c < 0x10000 then [of_nat c]
      else [of_nat (0xD800 + (c - 0x10000) div 1024), of_nat (0xDC00 + (c - 0x10000) mod 1024)])"

definition toString :: "byte list \<Rightarrow> jsstring" where
  "toString chunk = concat (map utf16_units (utf8_decode None (map unat chunk)))"

text \<open>\<open>s.split('\n')\<close>: the result is never empty; its last element is the text after the
  last newline.\<close>

fun split_nl :: "jsstring \<Rightarrow> jsstring list" where
  "split_nl [] = [[]]"
| "split_nl (c # cs) =
     (if c = 10 then [] # split_nl cs
      else (case split_nl cs of [] \<Rightarrow> [[c]] | l # ls \<Rightarrow> (c # l) # ls))"

text \<open>\<open>lines.pop() || ''\<close> and the array that is left.\<close>

definition pop_or_empty :: "jsstring list \<Rightarrow> jsstring" where
  "pop_or_empty ls = (case rev ls of [] \<Rightarrow> [] | l # _ \<Rightarrow> l)"

text \<open>\<open>s.trim()\<close> removes JavaScript white space and line terminators at both ends.\<close>

definition js_whitespace :: "16 word \<Rightarrow> bool" where
  "js_whitespace c \<longleftrightarrow>
     c = 0x09 \<or> c = 0x0A \<or> c = 0x0B \<or> c = 0x0C \<or> c = 0x0D \<or> c = 0x20 \<or> c = 0xA0 \<or>
     c = 0x1680 \<or> (0x2000 \<le> c \<and> c \<le> 0x200A) \<or> c = 0x2028 \<or> c = 0x2029 \<or>
     c = 0x202F \<or> c = 0x205F \<or> c = 0x3000 \<or> c = 0xFEFF"

definition trim :: "jsstring \<Rightarrow> jsstring" where
  "trim s = rev (dropWhile js_whitespace (rev (dropWhile js_whitespace s)))"


section \<open>The streaming translator\<close>

subsection \<open>Outbound events\<close>

text \<open>
  \<open>sseEvent(event, data)\<close> serialises one event. The model keeps the event before
  serialisation: its name and the fields of its \<open>data\<close> object.
\<close>

datatype json =
    JNull | JBool bool | JNumber real | JString jsstring
  | JArray "json list" | JObject "(jsstring \<times> json) list"

datatype content_block = TextBlock jsstring | ToolUseBlock jsstring jsstring json

datatype block_delta = TextDelta jsstring | InputJsonDelta jsstring

datatype stop_reason = EndTurn | ToolUse

datatype event =
    MessageStart jsstring jsstring nat nat
  | ContentBlockStart nat content_block
  | ContentBlockDelta nat block_delta
  | ContentBlockStop nat
  | MessageDelta stop_reason nat
  | MessageStop

subsection \<open>Parsed backend chunks\<close>

text \<open>
  The value of \<open>JSON.parse(dataStr)\<close>, read at the fields the handler reads. A field is
  \<open>None\<close> when it is absent or \<open>null\<close>.
\<close>

record function_delta =
  fn_name :: "jsstring option"
  fn_arguments :: "jsstring option"

record tool_call_delta =
  tc_index :: "nat option"
  tc_id :: "jsstring option"
  tc_function :: "function_delta option"

record delta_t =
  delta_content :: "jsstring option"
  delta_tool_calls :: "tool_call_delta list option"

record choice_t =
  delta :: "delta_t option"
  finish_reason :: "jsstring option"

record usage_t =
  prompt_tokens :: "nat option"
  completion_tokens :: "nat option"

record chunk_t =
  choices :: "choice_t list option"
  usage :: "usage_t option"

text \<open>JavaScript truthiness of an optional string, and \<open>x || d\<close> on strings and numbers.\<close>

definition truthy :: "jsstring option \<Rightarrow> bool" where
  "truthy x = (case x of None \<Rightarrow> False | Some s \<Rightarrow> s \<noteq> [])"

definition str_or :: "jsstring option \<Rightarrow> jsstring \<Rightarrow> jsstring" where
  "str_or x d = (case x of None \<Rightarrow> d | Some s \<Rightarrow> if s = [] then d else s)"

definition num_or :: "nat option \<Rightarrow> nat \<Rightarrow> nat" where
  "num_or x d = (case x of None \<Rightarrow> d | Some n \<Rightarrow> if n = 0 then d else n)"

subsection \<open>State of one streaming request\<close>

record tool_acc =
  acc_id :: jsstring
  acc_name :: jsstring
  acc_arguments :: jsstring

text \<open>
  The variables of \<open>handleStreaming\<close> and of the response callback, and the client
  response \<open>res\<close>: the events written so far and whether \<open>res.end()\<close> has been called.
  \<open>toolCalls\<close> is a JavaScript \<open>Map\<close>, iterated in insertion order, so it is an
  association list.
\<close>

record stream_state =
  buffer :: jsstring
  textBlockStarted :: bool
  currentBlockIndex :: nat
  toolCalls :: "(nat \<times> tool_acc) list"
  toolBlocksStarted :: "nat set"
  inputTokens :: nat
  outputTokens :: nat
  written :: "event list"
  writableEnded :: bool

text \<open>\<open>res.write\<close> and \<open>res.end\<close>. Data written after \<open>res.end()\<close> never reaches the
  client.\<close>

definition res_write :: "event \<Rightarrow> stream_state \<Rightarrow> stream_state" where
  "res_write e st = (if writableEnded st then st else st\<lparr>written := written st @ [e]\<rparr>)"

definition res_end :: "stream_state \<Rightarrow> stream_state" where
  "res_end st = st\<lparr>writableEnded := True\<rparr>"

text \<open>\<open>Map.set\<close>: an existing key keeps its place, a new key goes last.\<close>

fun map_set :: "nat \<Rightarrow> 'v \<Rightarrow> (nat \<times> 'v) list \<Rightarrow> (nat \<times> 'v) list" where
  "map_set k v [] = [(k, v)]"
| "map_set k v ((k', v') # kvs) = (if k' = k then (k, v) # kvs else (k', v') # map_set k v kvs)"

subsection \<open>The handlers of the \<open>data\<close> callback\<close>

text \<open>Finish reason (proxy.ts, lines 226-252). The loop over \<open>toolCalls\<close> closes the
  block index \<open>currentBlockIndex + tcIndex + 1\<close> when that index is in
  \<open>toolBlocksStarted\<close>.\<close>

fun close_tool_blocks :: "nat list \<Rightarrow> stream_state \<Rightarrow> stream_state" where
  "close_tool_blocks [] st = st"
| "close_tool_blocks (tcIndex # rest) st =
     (let blockIndex = currentBlockIndex st + tcIndex + 1 in
      close_tool_blocks rest
        (if blockIndex \<in> toolBlocksStarted st then res_write (ContentBlockStop blockIndex) st
         else st))"

definition handle_finish :: "jsstring \<Rightarrow> stream_state \<Rightarrow> stream_state" where
  "handle_finish reason st =
     (let st1 = (if textBlockStarted st
                 then res_write (ContentBlockStop (currentBlockIndex st)) st else st);
          st2 = close_tool_blocks (map fst (toolCalls st1)) st1;
          stopReason = (if reason = js ''tool_calls'' then ToolUse else EndTurn);
          st3 = res_write (MessageDelta stopReason (outputTokens st2)) st2;
          st4 = res_write MessageStop st3
      in res_end st4)"

text \<open>Text content (proxy.ts, lines 255-275).\<close>

definition handle_text :: "jsstring \<Rightarrow> stream_state \<Rightarrow> stream_state" where
  "handle_text text st =
     (let st1 = (if \<not> textBlockStarted st
                 then (res_write (ContentBlockStart (currentBlockIndex st) (TextBlock [])) st)
                        \<lparr>textBlockStarted := True\<rparr>
                 else st);
          st2 = res_write (ContentBlockDelta (currentBlockIndex st1) (TextDelta text)) st1
      in st2\<lparr>outputTokens := outputTokens st2 + 1\<rparr>)"

text \<open>One element of \<open>delta.tool_calls\<close> (the body of the loop, proxy.ts, lines 287-325).\<close>

definition fn_field :: "(function_delta \<Rightarrow> jsstring option) \<Rightarrow> tool_call_delta \<Rightarrow> jsstring option" where
  "fn_field f tc = (case tc_function tc of None \<Rightarrow> None | Some fd \<Rightarrow> f fd)"

definition tool_fragment :: "tool_call_delta \<Rightarrow> stream_state \<Rightarrow> stream_state" where
  "tool_fragment tc st =
     (let tcIndex = (case tc_index tc of None \<Rightarrow> 0 | Some i \<Rightarrow> i);
          blockIndex = currentBlockIndex st + tcIndex;
          entry = (case map_of (toolCalls st) tcIndex of
                     None \<Rightarrow> \<lparr>acc_id = str_or (tc_id tc) [], acc_name = [], acc_arguments = []\<rparr>
                   | Some a \<Rightarrow> a);
          toolCall = \<lparr>acc_id = str_or (tc_id tc) (acc_id entry),
                      acc_name = str_or (fn_field fn_name tc) (acc_name entry),
                      acc_arguments = acc_arguments entry @ str_or (fn_field fn_arguments tc) []\<rparr>;
          st1 = st\<lparr>toolCalls := map_set tcIndex toolCall (toolCalls st)\<rparr>;
          st2 = (if blockIndex \<notin> toolBlocksStarted st1 \<and> acc_name toolCall \<noteq> []
                 then (res_write
                         (ContentBlockStart blockIndex
                            (ToolUseBlock (acc_id toolCall) (acc_name toolCall) (JObject [])))
                         st1)
                        \<lparr>toolBlocksStarted := insert blockIndex (toolBlocksStarted st1)\<rparr>
                 else st1)
      in if truthy (fn_field fn_arguments tc) \<and> blockIndex \<in> toolBlocksStarted st2
         then res_write
                (ContentBlockDelta blockIndex (InputJsonDelta (str_or (fn_field fn_arguments tc) [])))
                st2
         else st2)"

text \<open>Tool calls (proxy.ts, lines 278-327).\<close>

definition handle_tool_calls :: "tool_call_delta list \<Rightarrow> stream_state \<Rightarrow> stream_state" where
  "handle_tool_calls tcs st =
     (let st1 = (if textBlockStarted st \<and> toolBlocksStarted st = {}
                 then (res_write (ContentBlockStop (currentBlockIndex st)) st)
                        \<lparr>currentBlockIndex := currentBlockIndex st + 1, textBlockStarted := False\<rparr>
                 else st)
      in fold tool_fragment tcs st1)"

text \<open>Usage (proxy.ts, lines 330-333).\<close>

definition handle_usage :: "usage_t \<Rightarrow> stream_state \<Rightarrow> stream_state" where
  "handle_usage u st =
     st\<lparr>inputTokens := num_or (prompt_tokens u) (inputTokens st),
        outputTokens := num_or (completion_tokens u) (outputTokens st)\<rparr>"

text \<open>
  The body of the \<open>try\<close> block for one parsed object (proxy.ts, lines 218-333). The
  second component is \<open>True\<close> when the handler executed \<open>return\<close>, which leaves the
  whole \<open>data\<close> callback.
\<close>

definition handle_chunk :: "chunk_t \<Rightarrow> stream_state \<Rightarrow> stream_state \<times> bool" where
  "handle_chunk data st =
     (case (case choices data of None \<Rightarrow> [] | Some cs \<Rightarrow> cs) of
        [] \<Rightarrow> (st, False)
      | choice # _ \<Rightarrow>
          (let d = (case delta choice of
                      None \<Rightarrow> \<lparr>delta_content = None, delta_tool_calls = None\<rparr>
                    | Some d' \<Rightarrow> d')
           in if truthy (finish_reason choice)
              then (handle_finish (str_or (finish_reason choice) []) st, True)
              else
                (let st1 = (if truthy (delta_content d)
                            then handle_text (str_or (delta_content d) []) st else st);
                     st2 = (case delta_tool_calls d of
                              None \<Rightarrow> st1
                            | Some tcs \<Rightarrow> handle_tool_calls tcs st1);
                     st3 = (case usage data of None \<Rightarrow> st2 | Some u \<Rightarrow> handle_usage u st2)
                 in (st3, False))))"

text \<open>
  One line of the buffer (proxy.ts, lines 212-336). \<open>parse\<close> stands for \<open>JSON.parse\<close>
  followed by the field reads above; it is \<open>None\<close> when the text is not JSON, or when
  reading the fields throws: the \<open>catch\<close> block skips the line either way.
\<close>

definition process_line ::
  "(jsstring \<Rightarrow> chunk_t option) \<Rightarrow> jsstring \<Rightarrow> stream_state \<Rightarrow> stream_state \<times> bool" where
  "process_line parse line st =
     (if \<not> startsWith line (js ''data: '') then (st, False)
      else
        (let dataStr = trim (drop 6 line) in
         if dataStr = js ''[DONE]'' then (st, False)
         else (case parse dataStr of None \<Rightarrow> (st, False) | Some data \<Rightarrow> handle_chunk data st)))"

fun process_lines ::
  "(jsstring \<Rightarrow> chunk_t option) \<Rightarrow> jsstring list \<Rightarrow> stream_state \<Rightarrow> stream_state" where
  "process_lines parse [] st = st"
| "process_lines parse (line # rest) st =
     (case process_line parse line st of
        (st', True) \<Rightarrow> st'
      | (st', False) \<Rightarrow> process_lines parse rest st')"

text \<open>The \<open>data\<close> callback (proxy.ts, lines 206-338), on the already decoded text and on
  the bytes of a chunk.\<close>

definition on_text :: "(jsstring \<Rightarrow> chunk_t option) \<Rightarrow> jsstring \<Rightarrow> stream_state \<Rightarrow> stream_state" where
  "on_text parse text st =
     (let lines = split_nl (buffer st @ text);
          st1 = st\<lparr>buffer := pop_or_empty lines\<rparr>
      in process_lines parse (butlast lines) st1)"

definition on_data :: "(jsstring \<Rightarrow> chunk_t option) \<Rightarrow> byte list \<Rightarrow> stream_state \<Rightarrow> stream_state" where
  "on_data parse chunk st = on_text parse (toString chunk) st"

text \<open>
  \<open>handleStreaming\<close> (proxy.ts, lines 164-363): \<open>message_start\<close> is written before the
  backend request is made; the callback's variables start as below; the backend's chunks
  are handled in order; when the backend stream ends or fails, \<open>res.end()\<close> is called
  (the \<open>end\<close> and \<open>error\<close> handlers, lines 340-358). \<open>now\<close> is the text of \<open>Date.now()\<close>.
\<close>

definition initial_state :: "jsstring \<Rightarrow> jsstring \<Rightarrow> stream_state" where
  "initial_state msgId m =
     \<lparr>buffer = [], textBlockStarted = False, currentBlockIndex = 0, toolCalls = [],
      toolBlocksStarted = {}, inputTokens = 0, outputTokens = 0,
      written = [MessageStart msgId m 0 0], writableEnded = False\<rparr>"

definition run_data ::
  "(jsstring \<Rightarrow> chunk_t option) \<Rightarrow> byte list list \<Rightarrow> stream_state \<Rightarrow> stream_state" where
  "run_data parse chunks st = fold (on_data parse) chunks st"

definition handleStreaming ::
  "(jsstring \<Rightarrow> chunk_t option) \<Rightarrow> jsstring \<Rightarrow> anthropicReq \<Rightarrow> byte list list \<Rightarrow> stream_state" where
  "handleStreaming parse now req chunks =
     res_end (run_data parse chunks (initial_state (js ''msg_'' @ now) (model req)))"


section \<open>The non-streaming translator\<close>

text \<open>The parsed backend response, read at the fields \<open>handleNonStreaming\<close> reads.\<close>

record function_call =
  call_name :: "jsstring option"
  call_arguments :: "jsstring option"

record tool_call =
  call_id :: "jsstring option"
  call_function :: "function_call option"

record message_t =
  message_content :: "jsstring option"
  message_tool_calls :: "tool_call list option"

record ns_choice =
  message :: "message_t option"
  ns_finish_reason :: "jsstring option"

record backend_response =
  ns_choices :: "ns_choice list option"
  ns_usage :: "usage_t option"

text \<open>
  What the \<open>try\<close> block can throw: \<open>JSON.parse\<close> throws a \<open>SyntaxError\<close>, reading a
  property of \<open>undefined\<close> throws a \<open>TypeError\<close>, and the handler itself throws
  \<open>new Error(message)\<close>.
\<close>

datatype js_error = SyntaxError | TypeError | Error jsstring

datatype response_block =
    TextContent jsstring
  | ToolUseContent "jsstring option" "jsstring option" json

record anthropic_message =
  msg_id :: jsstring
  msg_content :: "response_block list"
  msg_model :: jsstring
  msg_stop_reason :: stop_reason
  msg_input_tokens :: nat
  msg_output_tokens :: nat

text \<open>The response body: \<open>{error: error.message}\<close> or the message object.\<close>

datatype response_body = ErrorBody js_error | MessageBody anthropic_message

record http_response =
  status :: nat
  content_type :: jsstring
  body :: response_body

text \<open>
  One tool call (proxy.ts, lines 398-411). \<open>parseJson\<close> stands for \<open>JSON.parse\<close> on the
  arguments text, \<open>None\<close> when it throws. The inner \<open>try\<close> covers only the parsing of
  the arguments; \<open>tc.function.name\<close> is read outside it.
\<close>

definition tool_use_block ::
  "(jsstring \<Rightarrow> json option) \<Rightarrow> tool_call \<Rightarrow> js_error + response_block" where
  "tool_use_block parseJson tc =
     (case call_function tc of
        None \<Rightarrow> Inl TypeError
      | Some f \<Rightarrow>
          Inr (ToolUseContent (call_id tc) (call_name f)
                 (case parseJson (str_or (call_arguments f) (js ''{}'')) of
                    None \<Rightarrow> JObject []
                  | Some v \<Rightarrow> v)))"

fun tool_use_blocks ::
  "(jsstring \<Rightarrow> json option) \<Rightarrow> tool_call list \<Rightarrow> js_error + response_block list" where
  "tool_use_blocks parseJson [] = Inr []"
| "tool_use_blocks parseJson (tc # tcs) =
     (case tool_use_block parseJson tc of
        Inl e \<Rightarrow> Inl e
      | Inr b \<Rightarrow>
          (case tool_use_blocks parseJson tcs of
             Inl e \<Rightarrow> Inl e
           | Inr bs \<Rightarrow> Inr (b # bs)))"

text \<open>
  The \<open>try\<close> block of the \<open>end\<close> callback (proxy.ts, lines 382-426). \<open>parseBody\<close> stands
  for \<open>JSON.parse(body)\<close> followed by the field reads; it is \<open>Inl\<close> when one of them
  throws.
\<close>

definition translate_response ::
  "(jsstring \<Rightarrow> js_error + backend_response) \<Rightarrow> (jsstring \<Rightarrow> json option) \<Rightarrow>
   jsstring \<Rightarrow> anthropicReq \<Rightarrow> jsstring \<Rightarrow> js_error + anthropic_message" where
  "translate_response parseBody parseJson now req text =
     (case parseBody text of
        Inl e \<Rightarrow> Inl e
      | Inr data \<Rightarrow>
          (case (case ns_choices data of None \<Rightarrow> [] | Some cs \<Rightarrow> cs) of
             [] \<Rightarrow> Inl (Error (js ''No response from Azure''))
           | choice # _ \<Rightarrow>
               (let txt = (case message choice of None \<Rightarrow> None | Some m \<Rightarrow> message_content m);
                    tcs = (case message choice of None \<Rightarrow> None | Some m \<Rightarrow> message_tool_calls m);
                    content1 = (if truthy txt then [TextContent (str_or txt [])] else [])
                in case (case tcs of None \<Rightarrow> Inr [] | Some l \<Rightarrow> tool_use_blocks parseJson l) of
                     Inl e \<Rightarrow> Inl e
                   | Inr blocks \<Rightarrow>
                       Inr \<lparr>msg_id = js ''msg_'' @ now,
                            msg_content = content1 @ blocks,
                            msg_model = model req,
                            msg_stop_reason =
                              (if ns_finish_reason choice = Some (js ''tool_calls'')
                               then ToolUse else EndTurn),
                            msg_input_tokens =
                              (case ns_usage data of None \<Rightarrow> 0 | Some u \<Rightarrow> num_or (prompt_tokens u) 0),
                            msg_output_tokens =
                              (case ns_usage data of None \<Rightarrow> 0
                               | Some u \<Rightarrow> num_or (completion_tokens u) 0)\<rparr>)))"

text \<open>
  \<open>handleNonStreaming\<close> (proxy.ts, lines 365-450): the body is the concatenation of the
  decoded chunks; the \<open>catch\<close> block and the request's \<open>error\<close> handler answer 500.
\<close>

datatype backend_result = Chunks "byte list list" | RequestError js_error

definition error_response :: "js_error \<Rightarrow> http_response" where
  "error_response e = \<lparr>status = 500, content_type = js ''application/json'', body = ErrorBody e\<rparr>"

definition handleNonStreaming ::
  "(jsstring \<Rightarrow> js_error + backend_response) \<Rightarrow> (jsstring \<Rightarrow> json option) \<Rightarrow>
   jsstring \<Rightarrow> anthropicReq \<Rightarrow> backend_result \<Rightarrow> http_response" where
  "handleNonStreaming parseBody parseJson now req backend =
     (case backend of
        RequestError e \<Rightarrow> error_response e
      | Chunks chunks \<Rightarrow>
          (case translate_response parseBody parseJson now req (concat (map toString chunks)) of
             Inl e \<Rightarrow> error_response e
           | Inr m \<Rightarrow>
               \<lparr>status = 200, content_type = js ''application/json'', body = MessageBody m\<rparr>))"


section \<open>Properties of states and of event sequences\<close>

text \<open>A name has been observed for the upstream tool-call index \<open>i\<close>.\<close>

definition named :: "stream_state \<Rightarrow> nat \<Rightarrow> bool" where
  "named st i = (case map_of (toolCalls st) i of None \<Rightarrow> False | Some a \<Rightarrow> acc_name a \<noteq> [])"

text \<open>The block index of an upstream index is marked as started exactly when a name has
  been observed for it.\<close>

definition tool_inv :: "stream_state \<Rightarrow> bool" where
  "tool_inv st = (\<forall>i. (currentBlockIndex st + i \<in> toolBlocksStarted st) = named st i)"

text \<open>The state with the accumulated argument text of every tool call erased.\<close>

definition erase_arguments :: "nat \<times> tool_acc \<Rightarrow> nat \<times> tool_acc" where
  "erase_arguments p = (fst p, (snd p)\<lparr>acc_arguments := []\<rparr>)"

definition forget_arguments :: "stream_state \<Rightarrow> stream_state" where
  "forget_arguments st = st\<lparr>toolCalls := map erase_arguments (toolCalls st)\<rparr>"

text \<open>The upstream index of a fragment (\<open>tc.index || 0\<close>), and the accumulator of an
  index before a fragment is merged (empty when the index is new).\<close>

definition frag_index :: "tool_call_delta \<Rightarrow> nat" where
  "frag_index tc = (case tc_index tc of None \<Rightarrow> 0 | Some i \<Rightarrow> i)"

definition acc_before :: "stream_state \<Rightarrow> nat \<Rightarrow> tool_acc" where
  "acc_before st i =
     (case map_of (toolCalls st) i of
        None \<Rightarrow> \<lparr>acc_id = [], acc_name = [], acc_arguments = []\<rparr>
      | Some a \<Rightarrow> a)"

fun tool_start_at :: "nat \<Rightarrow> event \<Rightarrow> bool" where
  "tool_start_at b (ContentBlockStart b' (ToolUseBlock i n inp)) = (b = b')"
| "tool_start_at b e = False"

fun json_delta_at :: "nat \<Rightarrow> event \<Rightarrow> bool" where
  "json_delta_at b (ContentBlockDelta b' (InputJsonDelta a)) = (b = b')"
| "json_delta_at b e = False"

definition tool_starts :: "event list \<Rightarrow> nat set" where
  "tool_starts es = {b. \<exists>e\<in>set es. tool_start_at b e}"

text \<open>Every \<open>input_json_delta\<close> of the sequence comes after a tool_use
  \<open>content_block_start\<close> with the same block index.\<close>

definition deltas_follow_starts :: "event list \<Rightarrow> bool" where
  "deltas_follow_starts es =
     (\<forall>k<length es. \<forall>b. json_delta_at b (es ! k) \<longrightarrow> b \<in> tool_starts (take k es))"

fun empty_input :: "event \<Rightarrow> bool" where
  "empty_input (ContentBlockStart b (ToolUseBlock i n inp)) = (inp = JObject [])"
| "empty_input e = True"

fun terminal :: "event \<Rightarrow> bool" where
  "terminal (MessageDelta r n) = True"
| "terminal MessageStop = True"
| "terminal e = False"

text \<open>The invariant behind \<open>deltas_follow_starts\<close>: while the response is open, every
  block index marked as started has its start event in the sequence.\<close>

definition ordered_state :: "stream_state \<Rightarrow> bool" where
  "ordered_state st =
     (deltas_follow_starts (written st) \<and>
      (writableEnded st \<or> toolBlocksStarted st \<subseteq> tool_starts (written st)))"

text \<open>When the handler has ended the response itself, the events end with one
  \<open>message_delta\<close> and one \<open>message_stop\<close>; until then there is neither.\<close>

definition well_terminated :: "stream_state \<Rightarrow> bool" where
  "well_terminated st =
     (if writableEnded st
      then (\<exists>pre r n. written st = pre @ [MessageDelta r n, MessageStop] \<and>
              list_all (\<lambda>e. \<not> terminal e) pre)
      else list_all (\<lambda>e. \<not> terminal e) (written st))"

text \<open>Two states agree on everything but the line buffer, or both responses have ended
  with the same events written.\<close>

definition same_output :: "stream_state \<Rightarrow> stream_state \<Rightarrow> bool" where
  "same_output s r =
     (s\<lparr>buffer := []\<rparr> = r\<lparr>buffer := []\<rparr>
      \<or> (writableEnded s \<and> writableEnded r \<and> written s = written r))"

text \<open>
  A line of the backend text that carries a finish reason: it has the data marker, its
  payload is not \<open>[DONE]\<close> and parses, and the first choice of the parsed object has a
  non-empty \<open>finish_reason\<close>.
\<close>

definition finish_line :: "(jsstring \<Rightarrow> chunk_t option) \<Rightarrow> jsstring \<Rightarrow> bool" where
  "finish_line parse line =
     (startsWith line (js ''data: '') \<and> trim (drop 6 line) \<noteq> js ''[DONE]'' \<and>
      (case parse (trim (drop 6 line)) of
         None \<Rightarrow> False
       | Some data \<Rightarrow>
           (case choices data of
              None \<Rightarrow> False
            | Some [] \<Rightarrow> False
            | Some (choice # rest) \<Rightarrow>
                (case finish_reason choice of None \<Rightarrow> False | Some r \<Rightarrow> r \<noteq> []))))"

text \<open>The complete lines of the backend text: what precedes its last newline, split.\<close>

definition complete_lines :: "byte list list \<Rightarrow> jsstring list" where
  "complete_lines chunks = butlast (split_nl (concat (map toString chunks)))"

text \<open>All lines handled in order, with no early exit from the loop.\<close>

fun process_all ::
  "(jsstring \<Rightarrow> chunk_t option) \<Rightarrow> jsstring list \<Rightarrow> stream_state \<Rightarrow> stream_state" where
  "process_all parse [] st = st"
| "process_all parse (line # rest) st = process_all parse rest (fst (process_line parse line st))"


section \<open>Example inputs\<close>

text \<open>The bytes of an ASCII text.\<close>

definition bytes :: "string \<Rightarrow> byte list" where
  "bytes s = map (\<lambda>c. of_nat (of_char c)) s"

definition example_config :: AzureConfig where
  "example_config =
     \<lparr>endpoint = js ''https://example.openai.azure.com'', apiKey = js ''key'',
      apiVersion = js ''2024-02-01'',
      deployments = \<lparr>opus = js ''gpt-4o'', sonnet = js ''gpt-4o-mini'', haiku = js ''gpt-35''\<rparr>\<rparr>"

definition example_req :: anthropicReq where
  "example_req =
     \<lparr>model = js ''claude-sonnet-x'',
      messages = [\<lparr>role = User, content = StringContent (js ''Hi'')\<rparr>],
      system = None, max_tokens = None, temperature = None, stream = Some True\<rparr>"

text \<open>Backend chunks: a text delta, a finish reason, one tool-call fragment, a usage
  report without choices.\<close>

definition text_chunk :: "jsstring \<Rightarrow> chunk_t" where
  "text_chunk t =
     \<lparr>choices = Some [\<lparr>delta = Some \<lparr>delta_content = Some t, delta_tool_calls = None\<rparr>,
                       finish_reason = None\<rparr>],
      usage = None\<rparr>"

definition finish_chunk :: "jsstring \<Rightarrow> chunk_t" where
  "finish_chunk r =
     \<lparr>choices = Some [\<lparr>delta = Some \<lparr>delta_content = None, delta_tool_calls = None\<rparr>,
                       finish_reason = Some r\<rparr>],
      usage = None\<rparr>"

definition tool_chunk :: "tool_call_delta \<Rightarrow> chunk_t" where
  "tool_chunk tc =
     \<lparr>choices = Some [\<lparr>delta = Some \<lparr>delta_content = None, delta_tool_calls = Some [tc]\<rparr>,
                       finish_reason = None\<rparr>],
      usage = None\<rparr>"

definition usage_chunk :: "nat \<Rightarrow> nat \<Rightarrow> chunk_t" where
  "usage_chunk p c =
     \<lparr>choices = Some [], usage = Some \<lparr>prompt_tokens = Some p, completion_tokens = Some c\<rparr>\<rparr>"

definition weather_call :: tool_call_delta where
  "weather_call =
     \<lparr>tc_index = Some 0, tc_id = Some (js ''call_1''),
      tc_function = Some \<lparr>fn_name = Some (js ''get_weather''), fn_arguments = Some []\<rparr>\<rparr>"

definition weather_args :: tool_call_delta where
  "weather_args =
     \<lparr>tc_index = Some 0, tc_id = None,
      tc_function = Some \<lparr>fn_name = None, fn_arguments = Some (js ''{}'')\<rparr>\<rparr>"

definition bad_call :: tool_call_delta where
  "bad_call =
     \<lparr>tc_index = Some 0, tc_id = Some (js ''call_1''),
      tc_function = Some \<lparr>fn_name = Some (js ''get_weather''),
                          fn_arguments = Some (js ''{bad json'')\<rparr>\<rparr>"

text \<open>
  \<open>JSON.parse\<close> on the payloads the examples use: a text delta whose text has no quote,
  backslash or control character, the finish reasons "stop" and "tool_calls", and the
  three tool-call fragments above. The examples give it no other JSON text.
\<close>

definition example_parse :: "jsstring \<Rightarrow> chunk_t option" where
  \<open>example_parse s =
     (let pre = js ''{"choices":[{"delta":{"content":"''; suf = js ''"}}]}'' in
      if s = js ''{"choices":[{"delta":{},"finish_reason":"stop"}]}''
      then Some (finish_chunk (js ''stop''))
      else if s = js ''{"choices":[{"delta":{},"finish_reason":"tool_calls"}]}''
      then Some (finish_chunk (js ''tool_calls''))
      else if s = js ''{"choices":[{"delta":{"tool_calls":[{"index":0,"id":"call_1","function":{"name":"get_weather","arguments":""}}]}}]}''
      then Some (tool_chunk weather_call)
      else if s = js ''{"choices":[{"delta":{"tool_calls":[{"index":0,"function":{"arguments":"{}"}}]}}]}''
      then Some (tool_chunk weather_args)
      else if s = js ''{"choices":[{"delta":{"tool_calls":[{"index":0,"id":"call_1","function":{"name":"get_weather","arguments":"{bad json"}}]}}]}''
      then Some (tool_chunk bad_call)
      else if startsWith s pre \<and> startsWith (rev s) (rev suf) \<and> length pre + length suf \<le> length s
      then (let t = take (length s - length pre - length suf) (drop (length pre) s) in
            if list_all (\<lambda>c. c \<noteq> 34 \<and> c \<noteq> 92 \<and> 32 \<le> c) t then Some (text_chunk t) else None)
      else None)\<close>

text \<open>
  \<open>JSON.parse\<close> on the response bodies and on the argument texts the examples use. On
  every other text the two functions answer as for text that is not JSON.
\<close>

definition weather_response :: backend_response where
  \<open>weather_response =
     \<lparr>ns_choices =
        Some [\<lparr>message =
                 Some \<lparr>message_content = None,
                       message_tool_calls =
                         Some [\<lparr>call_id = Some (js ''call_1''),
                                call_function =
                                  Some \<lparr>call_name = Some (js ''get_weather''),
                                        call_arguments = Some (js ''{bad json'')\<rparr>\<rparr>]\<rparr>,
               ns_finish_reason = Some (js ''tool_calls'')\<rparr>],
      ns_usage = None\<rparr>\<close>

definition example_parse_body :: "jsstring \<Rightarrow> js_error + backend_response" where
  \<open>example_parse_body s =
     (if s = js ''{"choices":[]}'' then Inr \<lparr>ns_choices = Some [], ns_usage = None\<rparr>
      else if s = js ''{"choices":[{"message":{"content":null,"tool_calls":[{"id":"call_1","function":{"name":"get_weather","arguments":"{bad json"}}]},"finish_reason":"tool_calls"}]}''
      then Inr weather_response
      else Inl SyntaxError)\<close>

definition example_parse_json :: "jsstring \<Rightarrow> json option" where
  "example_parse_json s = (if s = js ''{}'' then Some (JObject []) else None)"

lemmas stream_eval =
  handleStreaming_def run_data_def on_data_def on_text_def initial_state_def process_line_def
  handle_chunk_def handle_finish_def handle_text_def handle_tool_calls_def tool_fragment_def
  handle_usage_def res_write_def res_end_def truthy_def str_or_def num_or_def fn_field_def
  pop_or_empty_def toString_def bytes_def js_def utf8_lead_def utf16_units_def trim_def
  js_whitespace_def example_parse_def text_chunk_def finish_chunk_def tool_chunk_def
  usage_chunk_def weather_call_def weather_args_def bad_call_def example_req_def Let_def


section \<open>Model mapping: results\<close>

lemma startsWith_iff: "startsWith s p \<longleftrightarrow> (\<exists>post. s = p @ post)"
  by (induction s p rule: startsWith.induct) auto

lemma includes_str_iff: "includes_str s p \<longleftrightarrow> (\<exists>pre post. s = pre @ p @ post)"
proof (induction s)
  case Nil
  then show ?case by auto
next
  case (Cons c cs)
  show ?case
  proof
    assume "includes_str (c # cs) p"
    then consider "startsWith (c # cs) p" | "includes_str cs p" by auto
    then show "\<exists>pre post. c # cs = pre @ p @ post"
    proof cases
      case 1
      then obtain post where "c # cs = p @ post" by (auto simp: startsWith_iff)
      then have "c # cs = [] @ p @ post" by simp
      then show ?thesis by blast
    next
      case 2
      then obtain pre post where "cs = pre @ p @ post" using Cons.IH by auto
      then have "c # cs = (c # pre) @ p @ post" by simp
      then show ?thesis by blast
    qed
  next
    assume "\<exists>pre post. c # cs = pre @ p @ post"
    then obtain pre post where eq: "c # cs = pre @ p @ post" by auto
    show "includes_str (c # cs) p"
    proof (cases pre)
      case Nil
      then have "startsWith (c # cs) p" using eq by (auto simp: startsWith_iff)
      then show ?thesis by simp
    next
      case (Cons a pre')
      then have "cs = pre' @ p @ post" using eq by simp
      then have "includes_str cs p" using Cons.IH by blast
      then show ?thesis by simp
    qed
  qed
qed

text \<open>
  Claim C7. For every model identifier and every deployment record, model resolution
  returns the opus deployment if the identifier contains the substring "opus", otherwise
  the haiku deployment if it contains "haiku", otherwise the sonnet deployment. The
  function is total (it has no error result), and a request whose model is
  "claude-opus-20250101" is sent to the opus deployment whatever its other fields are.
\<close>

theorem mapModel_family:
  "mapModel m config =
     (if (\<exists>pre post. m = pre @ js ''opus'' @ post) then opus (deployments config)
      else if (\<exists>pre post. m = pre @ js ''haiku'' @ post) then haiku (deployments config)
      else sonnet (deployments config))
   \<and> mapModel (js ''claude-opus-20250101'') config = opus (deployments config)
   \<and> oai_model (buildOpenAIReq config (req\<lparr>model := js ''claude-opus-20250101''\<rparr>))
       = opus (deployments config)"
proof -
  have a: "mapModel m config =
     (if (\<exists>pre post. m = pre @ js ''opus'' @ post) then opus (deployments config)
      else if (\<exists>pre post. m = pre @ js ''haiku'' @ post) then haiku (deployments config)
      else sonnet (deployments config))"
    unfolding mapModel_def includes_str_iff by simp
  have b: "mapModel (js ''claude-opus-20250101'') config = opus (deployments config)"
    by (simp add: mapModel_def js_def)
  have c: "oai_model (buildOpenAIReq config (req\<lparr>model := js ''claude-opus-20250101''\<rparr>))
       = opus (deployments config)"
    using b by (simp add: buildOpenAIReq_def)
  from a b c show ?thesis by blast
qed


section \<open>Request translation: results\<close>

text \<open>
  Claim C4 as stated: an explicit \<open>max_tokens\<close> of 0 is preserved. It is not: the source
  defaults \<open>max_tokens\<close> with \<open>||\<close>, so a request with \<open>max_tokens: 0\<close> is sent to the
  backend with \<open>max_tokens: 4096\<close>.
\<close>

theorem max_tokens_zero_not_preserved:
  "oai_max_tokens (buildOpenAIReq example_config (example_req\<lparr>max_tokens := Some 0\<rparr>)) = 4096"
  by (simp add: buildOpenAIReq_def example_req_def)

text \<open>
  Claim C4, amended. The translated request has \<open>max_tokens\<close> 4096 when the inbound
  request leaves it unset or gives 0, and the inbound value otherwise (falsy default);
  it has \<open>temperature\<close> 1 when the inbound request leaves it unset and the inbound value
  otherwise, so that an explicit temperature 0 stays 0 (nullish default).
\<close>

theorem sampling_defaults:
  "oai_max_tokens (buildOpenAIReq azure req) =
     (case max_tokens req of None \<Rightarrow> 4096 | Some n \<Rightarrow> if n = 0 then 4096 else n)
   \<and> oai_temperature (buildOpenAIReq azure req) =
     (case temperature req of None \<Rightarrow> 1 | Some t \<Rightarrow> t)
   \<and> oai_temperature (buildOpenAIReq azure (req\<lparr>temperature := Some 0\<rparr>)) = 0
   \<and> oai_max_tokens (buildOpenAIReq azure (req\<lparr>max_tokens := None\<rparr>)) = 4096
   \<and> oai_temperature (buildOpenAIReq azure (req\<lparr>temperature := None\<rparr>)) = 1"
  by (simp add: buildOpenAIReq_def)


section \<open>The streaming translator: results\<close>

text \<open>
  Claim C1 at a concrete backend stream: one tool call (upstream index 0, with its name),
  one fragment of arguments, then the finish reason "tool_calls". The tool block is
  started at block index 0 and receives its delta there, but the finish handler looks for
  block index 1 in \<open>toolBlocksStarted\<close>, so no \<open>content_block_stop\<close> is written for the
  started tool block: \<open>message_delta\<close> and \<open>message_stop\<close> follow the delta directly.
\<close>

theorem finish_leaves_tool_block_open:
  \<open>written (handleStreaming example_parse (js ''1'') example_req
     [bytes ''data: {"choices":[{"delta":{"tool_calls":[{"index":0,"id":"call_1","function":{"name":"get_weather","arguments":""}}]}}]}\<newline>\<newline>'',
      bytes ''data: {"choices":[{"delta":{"tool_calls":[{"index":0,"function":{"arguments":"{}"}}]}}]}\<newline>\<newline>'',
      bytes ''data: {"choices":[{"delta":{},"finish_reason":"tool_calls"}]}\<newline>\<newline>''])
   = [MessageStart (js ''msg_1'') (js ''claude-sonnet-x'') 0 0,
      ContentBlockStart 0 (ToolUseBlock (js ''call_1'') (js ''get_weather'') (JObject [])),
      ContentBlockDelta 0 (InputJsonDelta (js ''{}'')),
      MessageDelta ToolUse 0,
      MessageStop]\<close>
  by (simp add: stream_eval)

subsection \<open>Token counters\<close>

lemma res_write_fields [simp]:
  "buffer (res_write e st) = buffer st"
  "textBlockStarted (res_write e st) = textBlockStarted st"
  "currentBlockIndex (res_write e st) = currentBlockIndex st"
  "toolCalls (res_write e st) = toolCalls st"
  "toolBlocksStarted (res_write e st) = toolBlocksStarted st"
  "inputTokens (res_write e st) = inputTokens st"
  "outputTokens (res_write e st) = outputTokens st"
  "writableEnded (res_write e st) = writableEnded st"
  by (simp_all add: res_write_def)

lemma tool_fragment_tokens [simp]:
  "inputTokens (tool_fragment tc st) = inputTokens st"
  "outputTokens (tool_fragment tc st) = outputTokens st"
  by (simp_all add: tool_fragment_def Let_def)

lemma fold_tool_fragment_tokens [simp]:
  "inputTokens (fold tool_fragment tcs st) = inputTokens st"
  "outputTokens (fold tool_fragment tcs st) = outputTokens st"
  by (induction tcs arbitrary: st) simp_all

lemma handle_tool_calls_tokens [simp]:
  "inputTokens (handle_tool_calls tcs st) = inputTokens st"
  "outputTokens (handle_tool_calls tcs st) = outputTokens st"
  by (simp_all add: handle_tool_calls_def Let_def)

lemma handle_text_tokens [simp]:
  "inputTokens (handle_text t st) = inputTokens st"
  "outputTokens (handle_text t st) = outputTokens st + 1"
  by (simp_all add: handle_text_def Let_def)

text \<open>
  Claim C6 as stated: whenever a parsed backend event contains a usage object, the
  counters are updated from it. They are not when the event has no choices: the handler
  leaves the line at \<open>if (!choices.length) continue\<close>, before it reads \<open>data.usage\<close>.
  Here a usage report of 10 prompt tokens and 5 completion tokens leaves both counters 0.
\<close>

theorem usage_without_choices_ignored:
  "inputTokens (fst (handle_chunk (usage_chunk 10 5)
       (initial_state (js ''msg_1'') (js ''claude-sonnet-x'')))) = 0
   \<and> outputTokens (fst (handle_chunk (usage_chunk 10 5)
       (initial_state (js ''msg_1'') (js ''claude-sonnet-x'')))) = 0"
  by (simp add: handle_chunk_def usage_chunk_def initial_state_def)

text \<open>
  Claim C6, amended. Handling a text delta increases the output-token counter by exactly
  one. For a parsed event that has a first choice without a finish reason: with no usage
  object, the input counter is unchanged and the output counter grows by one if the event
  has a text delta and is unchanged otherwise. With a usage object, each counter is
  updated on its own: the input counter becomes the prompt count when that count is
  present and positive and is unchanged otherwise; the output counter becomes the
  completion count when that count is present and positive, and otherwise keeps its
  running value (grown by one if the event has a text delta). An event without choices
  changes nothing, its usage object included.
\<close>

theorem token_counters:
  "outputTokens (handle_text t st) = outputTokens st + 1
   \<and> (choices data = Some (c # cs) \<and> \<not> truthy (finish_reason c) \<and> usage data = None \<longrightarrow>
        inputTokens (fst (handle_chunk data st)) = inputTokens st \<and>
        outputTokens (fst (handle_chunk data st)) =
          outputTokens st +
          (if truthy (case delta c of None \<Rightarrow> None | Some d \<Rightarrow> delta_content d) then 1 else 0))
   \<and> (choices data = Some (c # cs) \<and> \<not> truthy (finish_reason c) \<and> usage data = Some u \<and>
       prompt_tokens u = Some p \<and> 0 < p \<longrightarrow>
        inputTokens (fst (handle_chunk data st)) = p)
   \<and> (choices data = Some (c # cs) \<and> \<not> truthy (finish_reason c) \<and> usage data = Some u \<and>
       (prompt_tokens u = None \<or> prompt_tokens u = Some 0) \<longrightarrow>
        inputTokens (fst (handle_chunk data st)) = inputTokens st)
   \<and> (choices data = Some (c # cs) \<and> \<not> truthy (finish_reason c) \<and> usage data = Some u \<and>
       completion_tokens u = Some q \<and> 0 < q \<longrightarrow>
        outputTokens (fst (handle_chunk data st)) = q)
   \<and> (choices data = Some (c # cs) \<and> \<not> truthy (finish_reason c) \<and> usage data = Some u \<and>
       (completion_tokens u = None \<or> completion_tokens u = Some 0) \<longrightarrow>
        outputTokens (fst (handle_chunk data st)) =
          outputTokens st +
          (if truthy (case delta c of None \<Rightarrow> None | Some d \<Rightarrow> delta_content d) then 1 else 0))
   \<and> (choices data = None \<or> choices data = Some [] \<longrightarrow> fst (handle_chunk data st) = st)"
  by (auto simp: handle_chunk_def Let_def handle_usage_def num_or_def split: option.splits)

theorem token_counters_witness:
  "outputTokens (handle_text (js ''Hel'') (initial_state (js ''msg_1'') (js ''m''))) = 1
   \<and> outputTokens (fst (handle_chunk (text_chunk (js ''Hel''))
        (initial_state (js ''msg_1'') (js ''m'')))) = 1
   \<and> inputTokens (fst (handle_chunk
        ((text_chunk (js ''Hel''))
           \<lparr>usage := Some \<lparr>prompt_tokens = Some 10, completion_tokens = Some 5\<rparr>\<rparr>)
        (initial_state (js ''msg_1'') (js ''m'')))) = 10
   \<and> outputTokens (fst (handle_chunk
        ((text_chunk (js ''Hel''))
           \<lparr>usage := Some \<lparr>prompt_tokens = Some 10, completion_tokens = Some 5\<rparr>\<rparr>)
        (initial_state (js ''msg_1'') (js ''m'')))) = 5
   \<and> inputTokens (fst (handle_chunk
        ((text_chunk (js ''Hel''))
           \<lparr>usage := Some \<lparr>prompt_tokens = Some 7, completion_tokens = Some 0\<rparr>\<rparr>)
        (initial_state (js ''msg_1'') (js ''m'')))) = 7
   \<and> outputTokens (fst (handle_chunk
        ((text_chunk (js ''Hel''))
           \<lparr>usage := Some \<lparr>prompt_tokens = Some 7, completion_tokens = Some 0\<rparr>\<rparr>)
        (initial_state (js ''msg_1'') (js ''m'')))) = 1
   \<and> inputTokens (fst (handle_chunk
        ((text_chunk (js ''Hel''))
           \<lparr>usage := Some \<lparr>prompt_tokens = None, completion_tokens = Some 9\<rparr>\<rparr>)
        (initial_state (js ''msg_1'') (js ''m'')))) = 0
   \<and> outputTokens (fst (handle_chunk
        ((text_chunk (js ''Hel''))
           \<lparr>usage := Some \<lparr>prompt_tokens = None, completion_tokens = Some 9\<rparr>\<rparr>)
        (initial_state (js ''msg_1'') (js ''m'')))) = 9
   \<and> fst (handle_chunk (usage_chunk 10 5) (initial_state (js ''msg_1'') (js ''m'')))
       = initial_state (js ''msg_1'') (js ''m'')"
  using
    token_counters [where t = "js ''Hel''" and st = "initial_state (js ''msg_1'') (js ''m'')"
      and data = "text_chunk (js ''Hel'')"
      and c = "\<lparr>delta = Some \<lparr>delta_content = Some (js ''Hel''), delta_tool_calls = None\<rparr>,
                 finish_reason = None\<rparr>"
      and cs = "[]"]
    token_counters [where st = "initial_state (js ''msg_1'') (js ''m'')"
      and data = "(text_chunk (js ''Hel''))
                    \<lparr>usage := Some \<lparr>prompt_tokens = Some 10, completion_tokens = Some 5\<rparr>\<rparr>"
      and c = "\<lparr>delta = Some \<lparr>delta_content = Some (js ''Hel''), delta_tool_calls = None\<rparr>,
                 finish_reason = None\<rparr>"
      and cs = "[]" and u = "\<lparr>prompt_tokens = Some 10, completion_tokens = Some 5\<rparr>"
      and p = 10 and q = 5]
    token_counters [where st = "initial_state (js ''msg_1'') (js ''m'')"
      and data = "(text_chunk (js ''Hel''))
                    \<lparr>usage := Some \<lparr>prompt_tokens = Some 7, completion_tokens = Some 0\<rparr>\<rparr>"
      and c = "\<lparr>delta = Some \<lparr>delta_content = Some (js ''Hel''), delta_tool_calls = None\<rparr>,
                 finish_reason = None\<rparr>"
      and cs = "[]" and u = "\<lparr>prompt_tokens = Some 7, completion_tokens = Some 0\<rparr>"
      and p = 7]
    token_counters [where st = "initial_state (js ''msg_1'') (js ''m'')"
      and data = "(text_chunk (js ''Hel''))
                    \<lparr>usage := Some \<lparr>prompt_tokens = None, completion_tokens = Some 9\<rparr>\<rparr>"
      and c = "\<lparr>delta = Some \<lparr>delta_content = Some (js ''Hel''), delta_tool_calls = None\<rparr>,
                 finish_reason = None\<rparr>"
      and cs = "[]" and u = "\<lparr>prompt_tokens = None, completion_tokens = Some 9\<rparr>"
      and q = 9]
    token_counters [where st = "initial_state (js ''msg_1'') (js ''m'')"
      and data = "usage_chunk 10 5"]
  by (simp add: text_chunk_def usage_chunk_def truthy_def initial_state_def js_def)


section \<open>The non-streaming translator: results\<close>

text \<open>
  Claim C8. On the non-streaming path, when the parsed backend response has no first
  choice (\<open>choices\<close> is absent or empty), the handler throws "No response from Azure",
  and the proxy answers with status 500 and the JSON body \<open>{"error": message}\<close>; the
  body is not an Anthropic message object.
\<close>

theorem empty_choices_answer_500:
  assumes "parseBody (concat (map toString chunks)) = Inr data"
    and "ns_choices data = None \<or> ns_choices data = Some []"
  shows "handleNonStreaming parseBody parseJson now req (Chunks chunks) =
           \<lparr>status = 500, content_type = js ''application/json'',
            body = ErrorBody (Error (js ''No response from Azure''))\<rparr>
         \<and> (\<forall>m. body (handleNonStreaming parseBody parseJson now req (Chunks chunks))
                \<noteq> MessageBody m)"
  using assms by (auto simp: handleNonStreaming_def translate_response_def error_response_def)

theorem empty_choices_answer_500_witness:
  \<open>handleNonStreaming example_parse_body example_parse_json (js ''1'') example_req
      (Chunks [bytes ''{"choi'', bytes ''ces":[]}''])
   = \<lparr>status = 500, content_type = js ''application/json'',
      body = ErrorBody (Error (js ''No response from Azure''))\<rparr>\<close>
proof -
  have h: \<open>example_parse_body (concat (map toString [bytes ''{"choi'', bytes ''ces":[]}'']))
           = Inr \<lparr>ns_choices = Some [], ns_usage = None\<rparr>\<close>
    by (simp add: example_parse_body_def toString_def bytes_def js_def utf8_lead_def
        utf16_units_def)
  show ?thesis
    using h empty_choices_answer_500 [where parseBody = example_parse_body
        and chunks = \<open>[bytes ''{"choi'', bytes ''ces":[]}'']\<close>
        and data = "\<lparr>ns_choices = Some [], ns_usage = None\<rparr>"
        and parseJson = example_parse_json and now = "js ''1''" and req = example_req]
    by simp
qed

section \<open>The streaming translator: invariants\<close>

subsection \<open>Lifting an invariant from one event to the whole stream\<close>

lemma map_of_map_set [simp]: "map_of (map_set k v kvs) = (map_of kvs)(k \<mapsto> v)"
  by (induction kvs) auto

lemma process_line_cases:
  "process_line parse l st = (st, False) \<or> (\<exists>d. process_line parse l st = handle_chunk d st)"
  by (auto simp: process_line_def Let_def split: option.splits)

lemma process_lines_inv:
  assumes step: "\<And>d st. I st \<Longrightarrow> I (fst (handle_chunk d st))"
  shows "I st \<Longrightarrow> I (process_lines parse ls st)"
proof (induction ls arbitrary: st)
  case Nil
  then show ?case by simp
next
  case (Cons l ls)
  obtain st' fl where r: "process_line parse l st = (st', fl)" by (cases "process_line parse l st")
  have "I st'"
    using process_line_cases [of parse l st] r Cons.prems step by (metis fst_conv)
  then show ?case using r Cons.IH by (cases fl) simp_all
qed

lemma on_text_inv:
  assumes step: "\<And>d st. I st \<Longrightarrow> I (fst (handle_chunk d st))"
    and buf: "\<And>st b. I st \<Longrightarrow> I (st\<lparr>buffer := b\<rparr>)"
  shows "I st \<Longrightarrow> I (on_text parse t st)"
  unfolding on_text_def Let_def using process_lines_inv [of I, OF step] buf by blast

lemma run_data_inv:
  assumes step: "\<And>d st. I st \<Longrightarrow> I (fst (handle_chunk d st))"
    and buf: "\<And>st b. I st \<Longrightarrow> I (st\<lparr>buffer := b\<rparr>)"
  shows "I st \<Longrightarrow> I (run_data parse chunks st)"
  unfolding run_data_def
proof (induction chunks arbitrary: st)
  case Nil
  then show ?case by simp
next
  case (Cons c cs)
  have "I (on_data parse c st)"
    unfolding on_data_def using on_text_inv [of I, OF step buf] Cons.prems by blast
  then show ?case using Cons.IH by simp
qed

text \<open>A tool-call fragment leaves the other variables alone.\<close>

lemma tool_fragment_fields [simp]:
  "buffer (tool_fragment tc st) = buffer st"
  "textBlockStarted (tool_fragment tc st) = textBlockStarted st"
  "currentBlockIndex (tool_fragment tc st) = currentBlockIndex st"
  "writableEnded (tool_fragment tc st) = writableEnded st"
  by (simp_all add: tool_fragment_def Let_def)

lemma tool_inv_fragment: "tool_inv st \<Longrightarrow> tool_inv (tool_fragment tc st)"
  unfolding tool_inv_def named_def tool_fragment_def Let_def
  by (auto simp: str_or_def split: option.splits if_splits)


subsection \<open>Tool-call fragments\<close>

lemma truthy_str_or: "truthy x = (str_or x [] \<noteq> [])"
  by (simp add: truthy_def str_or_def split: option.splits)

lemma str_or_idem: "str_or x (str_or x []) = str_or x []"
  by (simp add: str_or_def split: option.splits)

lemma str_or_nonempty: "d \<noteq> [] \<Longrightarrow> str_or x d \<noteq> []"
  by (simp add: str_or_def split: option.splits)

lemma tool_fragment_alt:
  "tool_fragment tc st =
     (let tcIndex = (case tc_index tc of None \<Rightarrow> 0 | Some i \<Rightarrow> i);
          blockIndex = currentBlockIndex st + tcIndex;
          old = (case map_of (toolCalls st) tcIndex of
                     None \<Rightarrow> \<lparr>acc_id = [], acc_name = [], acc_arguments = []\<rparr>
                   | Some a \<Rightarrow> a);
          toolCall = \<lparr>acc_id = str_or (tc_id tc) (acc_id old),
                      acc_name = str_or (fn_field fn_name tc) (acc_name old),
                      acc_arguments = acc_arguments old @ str_or (fn_field fn_arguments tc) []\<rparr>;
          st1 = st\<lparr>toolCalls := map_set tcIndex toolCall (toolCalls st)\<rparr>;
          st2 = (if blockIndex \<notin> toolBlocksStarted st \<and> acc_name toolCall \<noteq> []
                 then (res_write
                         (ContentBlockStart blockIndex
                            (ToolUseBlock (acc_id toolCall) (acc_name toolCall) (JObject [])))
                         st1)
                        \<lparr>toolBlocksStarted := insert blockIndex (toolBlocksStarted st)\<rparr>
                 else st1)
      in if str_or (fn_field fn_arguments tc) [] \<noteq> [] \<and> blockIndex \<in> toolBlocksStarted st2
         then res_write
                (ContentBlockDelta blockIndex (InputJsonDelta (str_or (fn_field fn_arguments tc) [])))
                st2
         else st2)"
  by (cases "map_of (toolCalls st) (case tc_index tc of None \<Rightarrow> 0 | Some i \<Rightarrow> i)")
     (simp_all add: tool_fragment_def Let_def truthy_str_or str_or_idem)

text \<open>
  Claim C2. For a tool-call fragment with upstream index \<open>i\<close>, handled while the response
  is open, the block index is \<open>currentBlockIndex + i\<close>. The fragment's id, name and
  arguments are merged into the accumulator of \<open>i\<close>. A \<open>content_block_start\<close> of type
  tool_use, carrying the accumulated id and name and an empty input object, is written
  exactly when the fragment makes a name observed for \<open>i\<close> for the first time; and the
  fragment's arguments text, when it is not empty and a name has been observed for \<open>i\<close>
  by then, is written verbatim as an \<open>input_json_delta\<close> at the same block index. The
  hypothesis \<open>tool_inv\<close> holds in every state the translator reaches
  (\<open>tool_inv_initial\<close>, \<open>tool_inv_fragment\<close>, \<open>tool_inv_chunk\<close>, \<open>tool_inv_run_data\<close>).
\<close>

theorem tool_fragment_events:
  assumes "tool_inv st" and "\<not> writableEnded st"
    and "i = (case tc_index tc of None \<Rightarrow> 0 | Some j \<Rightarrow> j)"
    and "b = currentBlockIndex st + i"
    and "old = (case map_of (toolCalls st) i of
                  None \<Rightarrow> \<lparr>acc_id = [], acc_name = [], acc_arguments = []\<rparr>
                | Some a \<Rightarrow> a)"
    and "args = str_or (fn_field fn_arguments tc) []"
    and "new = \<lparr>acc_id = str_or (tc_id tc) (acc_id old),
                 acc_name = str_or (fn_field fn_name tc) (acc_name old),
                 acc_arguments = acc_arguments old @ args\<rparr>"
    and "st' = tool_fragment tc st"
  shows "map_of (toolCalls st') i = Some new
       \<and> written st' =
           written st
           @ (if \<not> named st i \<and> named st' i
              then [ContentBlockStart b (ToolUseBlock (acc_id new) (acc_name new) (JObject []))]
              else [])
           @ (if args \<noteq> [] \<and> named st' i
              then [ContentBlockDelta b (InputJsonDelta args)]
              else [])
       \<and> (b \<in> toolBlocksStarted st') = named st' i
       \<and> currentBlockIndex st' = currentBlockIndex st
       \<and> tool_inv st'"
proof -
  have n: "named st i = (b \<in> toolBlocksStarted st)"
    using assms(1,4) by (simp add: tool_inv_def)
  have inv': "tool_inv st'" using assms(1,8) tool_inv_fragment by simp
  have n': "named st' i = (b \<in> toolBlocksStarted st')"
    using inv' assms(4,8) by (simp add: tool_inv_def)
  have m: "map_of (toolCalls st') i = Some new"
    unfolding assms(8) tool_fragment_alt using assms(3,5,6,7) by (simp add: Let_def)
  have nn: "named st' i = (acc_name new \<noteq> [])"
    using m by (simp add: named_def)
  have no: "named st i = (acc_name old \<noteq> [])"
    using assms(5) by (auto simp: named_def split: option.splits)
  have keep: "named st i \<Longrightarrow> named st' i"
    unfolding nn no using assms(7) by (simp add: str_or_nonempty)
  have w: "written st' =
           written st
           @ (if \<not> named st i \<and> named st' i
              then [ContentBlockStart b (ToolUseBlock (acc_id new) (acc_name new) (JObject []))]
              else [])
           @ (if args \<noteq> [] \<and> named st' i
              then [ContentBlockDelta b (InputJsonDelta args)]
              else [])"
    unfolding nn n
    unfolding assms(8) tool_fragment_alt
    using assms(2) n nn keep unfolding assms(3,4,5,6,7)
    by (auto simp add: Let_def res_write_def)
  show ?thesis using m w n' inv' assms(8) by simp
qed

lemma tool_inv_buffer [simp]: "tool_inv (st\<lparr>buffer := b\<rparr>) = tool_inv st"
  by (simp add: tool_inv_def named_def)

lemma tool_inv_res_write [simp]: "tool_inv (res_write e st) = tool_inv st"
  by (simp add: tool_inv_def named_def)

lemma tool_inv_initial: "tool_inv (initial_state msgId m)"
  by (simp add: tool_inv_def named_def initial_state_def)

lemma tool_inv_fold: "tool_inv st \<Longrightarrow> tool_inv (fold tool_fragment tcs st)"
  by (induction tcs arbitrary: st) (simp_all add: tool_inv_fragment)

lemma tool_inv_tool_calls: "tool_inv st \<Longrightarrow> tool_inv (handle_tool_calls tcs st)"
proof -
  assume inv: "tool_inv st"
  have "tool_inv ((res_write (ContentBlockStop (currentBlockIndex st)) st)
          \<lparr>currentBlockIndex := currentBlockIndex st + 1, textBlockStarted := False\<rparr>)"
    if "toolBlocksStarted st = {}"
    using inv that by (simp add: tool_inv_def named_def)
  then show ?thesis
    using inv by (simp add: handle_tool_calls_def Let_def tool_inv_fold)
qed

lemma tool_inv_text: "tool_inv st \<Longrightarrow> tool_inv (handle_text t st)"
  by (simp add: handle_text_def Let_def tool_inv_def named_def)

lemma close_tool_blocks_fields [simp]:
  "buffer (close_tool_blocks ks st) = buffer st"
  "textBlockStarted (close_tool_blocks ks st) = textBlockStarted st"
  "currentBlockIndex (close_tool_blocks ks st) = currentBlockIndex st"
  "toolCalls (close_tool_blocks ks st) = toolCalls st"
  "toolBlocksStarted (close_tool_blocks ks st) = toolBlocksStarted st"
  "inputTokens (close_tool_blocks ks st) = inputTokens st"
  "outputTokens (close_tool_blocks ks st) = outputTokens st"
  "writableEnded (close_tool_blocks ks st) = writableEnded st"
  by (induction ks arbitrary: st) (simp_all add: Let_def)

lemma tool_inv_finish: "tool_inv st \<Longrightarrow> tool_inv (handle_finish r st)"
  by (simp add: handle_finish_def Let_def tool_inv_def named_def res_end_def)

lemma tool_inv_usage: "tool_inv st \<Longrightarrow> tool_inv (handle_usage u st)"
  by (simp add: handle_usage_def tool_inv_def named_def)

lemma tool_inv_chunk: "tool_inv st \<Longrightarrow> tool_inv (fst (handle_chunk d st))"
  by (simp add: handle_chunk_def Let_def tool_inv_finish tool_inv_text tool_inv_tool_calls
      tool_inv_usage split: list.splits option.splits)

lemma tool_inv_run_data: "tool_inv st \<Longrightarrow> tool_inv (run_data parse chunks st)"
  by (rule run_data_inv [of tool_inv]) (simp_all add: tool_inv_chunk)

theorem tool_fragment_events_witness:
  "written (tool_fragment weather_args
      (tool_fragment weather_call (initial_state (js ''msg_1'') (js ''m''))))
   = [MessageStart (js ''msg_1'') (js ''m'') 0 0,
      ContentBlockStart 0 (ToolUseBlock (js ''call_1'') (js ''get_weather'') (JObject [])),
      ContentBlockDelta 0 (InputJsonDelta (js ''{}''))]"
proof -
  let ?s0 = "initial_state (js ''msg_1'') (js ''m'')"
  let ?s1 = "tool_fragment weather_call ?s0"
  have open0: "\<not> writableEnded ?s0" by (simp add: initial_state_def)
  note a = tool_fragment_events [OF tool_inv_initial open0 refl refl refl refl refl refl,
      of weather_call]
  have inv1: "tool_inv ?s1" using a by blast
  have open1: "\<not> writableEnded ?s1" using open0 by simp
  note b = tool_fragment_events [OF inv1 open1 refl refl refl refl refl refl, of weather_args]
  have n0: "\<not> named ?s0 0" by (simp add: named_def initial_state_def)
  have n1: "named ?s1 0"
    using a by (simp add: named_def weather_call_def str_or_def fn_field_def js_def)
  have w1: "written ?s1 = [MessageStart (js ''msg_1'') (js ''m'') 0 0,
      ContentBlockStart 0 (ToolUseBlock (js ''call_1'') (js ''get_weather'') (JObject []))]"
    using a n0 n1
    by (simp add: weather_call_def str_or_def fn_field_def initial_state_def js_def)
  have m1: "map_of (toolCalls ?s1) 0 = Some \<lparr>acc_id = js ''call_1'', acc_name = js ''get_weather'', acc_arguments = []\<rparr>"
    using a by (simp add: weather_call_def str_or_def fn_field_def initial_state_def js_def)
  have n2: "named (tool_fragment weather_args ?s1) 0"
    using b m1 by (simp add: named_def weather_args_def str_or_def fn_field_def js_def)
  show ?thesis
    using b n1 n2 w1
    by (simp add: weather_args_def str_or_def fn_field_def js_def initial_state_def)
qed

subsection \<open>Once the response has ended, nothing is written\<close>

lemma frozen_fragment:
  "writableEnded st \<Longrightarrow> written (tool_fragment tc st) = written st"
  by (simp add: tool_fragment_alt Let_def res_write_def)

lemma frozen_fold:
  "writableEnded st \<Longrightarrow>
   written (fold tool_fragment tcs st) = written st \<and> writableEnded (fold tool_fragment tcs st)"
  by (induction tcs arbitrary: st) (simp_all add: frozen_fragment)

lemma frozen_tool_calls:
  "writableEnded st \<Longrightarrow>
   written (handle_tool_calls tcs st) = written st \<and> writableEnded (handle_tool_calls tcs st)"
  by (simp add: handle_tool_calls_def Let_def frozen_fold res_write_def)

lemma frozen_text:
  "writableEnded st \<Longrightarrow>
   written (handle_text t st) = written st \<and> writableEnded (handle_text t st)"
  by (simp add: handle_text_def Let_def res_write_def)

lemma frozen_close:
  "writableEnded st \<Longrightarrow> written (close_tool_blocks ks st) = written st"
  by (induction ks arbitrary: st) (simp_all add: Let_def res_write_def)

lemma frozen_finish:
  "writableEnded st \<Longrightarrow>
   written (handle_finish r st) = written st \<and> writableEnded (handle_finish r st)"
  by (simp add: handle_finish_def Let_def res_write_def res_end_def frozen_close)

lemma usage_fields [simp]:
  "written (handle_usage u st) = written st"
  "writableEnded (handle_usage u st) = writableEnded st"
  by (simp_all add: handle_usage_def)

lemma frozen_chunk:
  "writableEnded st \<Longrightarrow>
   written (fst (handle_chunk d st)) = written st \<and> writableEnded (fst (handle_chunk d st))"
  by (simp add: handle_chunk_def Let_def frozen_finish frozen_text frozen_tool_calls
      split: list.splits option.splits)

subsection \<open>Tool starts carry an empty input\<close>

lemma empty_input_fragment:
  "list_all empty_input (written st) \<Longrightarrow> list_all empty_input (written (tool_fragment tc st))"
  by (simp add: tool_fragment_alt Let_def res_write_def)

lemma empty_input_fold:
  "list_all empty_input (written st) \<Longrightarrow>
   list_all empty_input (written (fold tool_fragment tcs st))"
  by (induction tcs arbitrary: st) (simp_all add: empty_input_fragment)

lemma empty_input_close:
  "list_all empty_input (written st) \<Longrightarrow>
   list_all empty_input (written (close_tool_blocks ks st))"
  by (induction ks arbitrary: st) (simp_all add: Let_def res_write_def)

lemma empty_input_text:
  "list_all empty_input (written st) \<Longrightarrow> list_all empty_input (written (handle_text t st))"
  by (simp add: handle_text_def Let_def res_write_def)

lemma empty_input_tool_calls:
  "list_all empty_input (written st) \<Longrightarrow>
   list_all empty_input (written (handle_tool_calls tcs st))"
  by (simp add: handle_tool_calls_def Let_def empty_input_fold res_write_def)

lemma empty_input_finish:
  "list_all empty_input (written st) \<Longrightarrow> list_all empty_input (written (handle_finish r st))"
  by (simp add: handle_finish_def Let_def res_write_def res_end_def empty_input_close)

lemma empty_input_chunk:
  "list_all empty_input (written st) \<Longrightarrow>
   list_all empty_input (written (fst (handle_chunk d st)))"
  by (simp add: handle_chunk_def Let_def empty_input_text empty_input_tool_calls
      empty_input_finish split: list.splits option.splits)

lemma empty_input_run_data:
  "list_all empty_input (written st) \<Longrightarrow>
   list_all empty_input (written (run_data parse chunks st))"
  by (rule run_data_inv [of "\<lambda>s. list_all empty_input (written s)"])
     (simp_all add: empty_input_chunk)

lemma empty_input_handleStreaming:
  "list_all empty_input (written (handleStreaming parse now req chunks))"
proof -
  have "list_all empty_input (written (initial_state (js ''msg_'' @ now) (model req)))"
    by (simp add: initial_state_def)
  from empty_input_run_data [OF this] show ?thesis
    by (simp add: handleStreaming_def res_end_def)
qed

subsection \<open>Deltas follow starts\<close>

lemma tool_starts_snoc: "tool_starts (es @ [e]) = tool_starts es \<union> {b. tool_start_at b e}"
  by (auto simp: tool_starts_def)

lemma deltas_follow_starts_snoc:
  "deltas_follow_starts (es @ [e]) =
     (deltas_follow_starts es \<and> (\<forall>b. json_delta_at b e \<longrightarrow> b \<in> tool_starts es))"
  by (auto simp: deltas_follow_starts_def less_Suc_eq nth_append)

lemma ordered_buffer [simp]: "ordered_state (st\<lparr>buffer := b\<rparr>) = ordered_state st"
  by (simp add: ordered_state_def)

lemma ordered_fragment: "ordered_state st \<Longrightarrow> ordered_state (tool_fragment tc st)"
  by (auto simp: tool_fragment_alt Let_def res_write_def ordered_state_def
      deltas_follow_starts_snoc tool_starts_snoc)

lemma ordered_fold: "ordered_state st \<Longrightarrow> ordered_state (fold tool_fragment tcs st)"
  by (induction tcs arbitrary: st) (simp_all add: ordered_fragment)

lemma ordered_write:
  "ordered_state st \<Longrightarrow> \<forall>b. \<not> json_delta_at b e \<Longrightarrow> ordered_state (res_write e st)"
  by (auto simp: res_write_def ordered_state_def deltas_follow_starts_snoc tool_starts_snoc)

lemma ordered_close: "ordered_state st \<Longrightarrow> ordered_state (close_tool_blocks ks st)"
  by (induction ks arbitrary: st) (simp_all add: Let_def ordered_write)

lemma ordered_text: "ordered_state st \<Longrightarrow> ordered_state (handle_text t st)"
  by (auto simp: handle_text_def Let_def res_write_def ordered_state_def
      deltas_follow_starts_snoc tool_starts_snoc)

lemma ordered_tool_calls: "ordered_state st \<Longrightarrow> ordered_state (handle_tool_calls tcs st)"
proof -
  assume o: "ordered_state st"
  have "ordered_state ((res_write (ContentBlockStop (currentBlockIndex st)) st)
          \<lparr>currentBlockIndex := currentBlockIndex st + 1, textBlockStarted := False\<rparr>)"
    using o by (auto simp: res_write_def ordered_state_def deltas_follow_starts_snoc
        tool_starts_snoc)
  then show ?thesis using o by (simp add: handle_tool_calls_def Let_def ordered_fold)
qed

lemma ordered_finish: "ordered_state st \<Longrightarrow> ordered_state (handle_finish r st)"
proof -
  assume o: "ordered_state st"
  have 1: "ordered_state (if textBlockStarted st
             then res_write (ContentBlockStop (currentBlockIndex st)) st else st)"
    using o by (simp add: ordered_write)
  have 2: "ordered_state (res_end s)" if "ordered_state s" for s
    using that by (simp add: ordered_state_def res_end_def)
  show ?thesis
    unfolding handle_finish_def Let_def
    by (intro 2 ordered_write ordered_close 1) simp_all
qed

lemma ordered_usage: "ordered_state st \<Longrightarrow> ordered_state (handle_usage u st)"
  by (simp add: handle_usage_def ordered_state_def)

lemma ordered_chunk: "ordered_state st \<Longrightarrow> ordered_state (fst (handle_chunk d st))"
  by (simp add: handle_chunk_def Let_def ordered_finish ordered_text ordered_tool_calls
      ordered_usage split: list.splits option.splits)

lemma ordered_handleStreaming:
  "deltas_follow_starts (written (handleStreaming parse now req chunks))"
proof -
  have "ordered_state (initial_state (js ''msg_'' @ now) (model req))"
    by (simp add: ordered_state_def initial_state_def deltas_follow_starts_def)
  then have "ordered_state (run_data parse chunks (initial_state (js ''msg_'' @ now) (model req)))"
    by (rule run_data_inv [of ordered_state, rotated 2]) (simp_all add: ordered_chunk)
  then show ?thesis by (simp add: handleStreaming_def res_end_def ordered_state_def)
qed

subsection \<open>Termination events\<close>

lemma open_fragment:
  "list_all (\<lambda>e. \<not> terminal e) (written st) \<Longrightarrow>
   list_all (\<lambda>e. \<not> terminal e) (written (tool_fragment tc st))"
  by (simp add: tool_fragment_alt Let_def res_write_def)

lemma open_fold:
  "list_all (\<lambda>e. \<not> terminal e) (written st) \<Longrightarrow>
   list_all (\<lambda>e. \<not> terminal e) (written (fold tool_fragment tcs st))
   \<and> writableEnded (fold tool_fragment tcs st) = writableEnded st"
  by (induction tcs arbitrary: st) (simp_all add: open_fragment)

lemma open_tool_calls:
  "list_all (\<lambda>e. \<not> terminal e) (written st) \<Longrightarrow>
   list_all (\<lambda>e. \<not> terminal e) (written (handle_tool_calls tcs st))
   \<and> writableEnded (handle_tool_calls tcs st) = writableEnded st"
  by (simp add: handle_tool_calls_def Let_def open_fold res_write_def)

lemma open_text:
  "list_all (\<lambda>e. \<not> terminal e) (written st) \<Longrightarrow>
   list_all (\<lambda>e. \<not> terminal e) (written (handle_text t st))
   \<and> writableEnded (handle_text t st) = writableEnded st"
  by (simp add: handle_text_def Let_def res_write_def)

lemma open_close:
  "list_all (\<lambda>e. \<not> terminal e) (written st) \<Longrightarrow>
   list_all (\<lambda>e. \<not> terminal e) (written (close_tool_blocks ks st))"
  by (induction ks arbitrary: st) (simp_all add: Let_def res_write_def)

lemma finish_terminates:
  assumes "\<not> writableEnded st" and "list_all (\<lambda>e. \<not> terminal e) (written st)"
  shows "well_terminated (handle_finish r st)"
proof -
  let ?s1 = "if textBlockStarted st
             then res_write (ContentBlockStop (currentBlockIndex st)) st else st"
  let ?s2 = "close_tool_blocks (map fst (toolCalls ?s1)) ?s1"
  have "list_all (\<lambda>e. \<not> terminal e) (written ?s1)"
    using assms by (simp add: res_write_def)
  then have p: "list_all (\<lambda>e. \<not> terminal e) (written ?s2)" by (rule open_close)
  have e: "\<not> writableEnded ?s2" using assms(1) by simp
  have "written (handle_finish r st) =
          written ?s2 @ [MessageDelta (if r = js ''tool_calls'' then ToolUse else EndTurn)
                           (outputTokens ?s2), MessageStop]"
    "writableEnded (handle_finish r st)"
    using e by (simp_all add: handle_finish_def Let_def res_write_def res_end_def)
  then show ?thesis using p unfolding well_terminated_def by auto
qed

lemma well_terminated_chunk:
  assumes "well_terminated st"
  shows "well_terminated (fst (handle_chunk d st))"
proof (cases "writableEnded st")
  case True
  then show ?thesis using assms frozen_chunk [OF True, of d] by (simp add: well_terminated_def)
next
  case False
  then have nt: "list_all (\<lambda>e. \<not> terminal e) (written st)"
    using assms by (simp add: well_terminated_def)
  have keep: "well_terminated s"
    if "list_all (\<lambda>e. \<not> terminal e) (written s)" "\<not> writableEnded s" for s
    using that by (simp add: well_terminated_def)
  show ?thesis
    using False nt
    by (auto simp: handle_chunk_def Let_def finish_terminates open_text open_tool_calls
        intro!: keep split: list.splits option.splits)
qed

lemma well_terminated_run_data:
  "well_terminated st \<Longrightarrow> well_terminated (run_data parse chunks st)"
proof (rule run_data_inv [of well_terminated])
  show "well_terminated (fst (handle_chunk d s))" if "well_terminated s" for d s
    using that by (rule well_terminated_chunk)
  have "well_terminated (s\<lparr>buffer := b\<rparr>) = well_terminated s" for s b
    by (simp add: well_terminated_def)
  then show "well_terminated (s\<lparr>buffer := b\<rparr>)" if "well_terminated s" for s b
    using that by simp
qed

subsection \<open>The first event\<close>

lemma first_fragment:
  "written st \<noteq> [] \<Longrightarrow>
   written (tool_fragment tc st) \<noteq> [] \<and> hd (written (tool_fragment tc st)) = hd (written st)"
  by (simp add: tool_fragment_alt Let_def res_write_def)

lemma first_fold:
  "written st \<noteq> [] \<Longrightarrow>
   written (fold tool_fragment tcs st) \<noteq> [] \<and>
   hd (written (fold tool_fragment tcs st)) = hd (written st)"
  by (induction tcs arbitrary: st) (simp_all add: first_fragment)

lemma first_close:
  "written st \<noteq> [] \<Longrightarrow>
   written (close_tool_blocks ks st) \<noteq> [] \<and>
   hd (written (close_tool_blocks ks st)) = hd (written st)"
  by (induction ks arbitrary: st) (simp_all add: Let_def res_write_def)

lemma first_chunk:
  assumes "written st \<noteq> []"
  shows "written (fst (handle_chunk d st)) \<noteq> [] \<and>
         hd (written (fst (handle_chunk d st))) = hd (written st)"
proof -
  have t: "written (handle_text t s) \<noteq> [] \<and> hd (written (handle_text t s)) = hd (written s)"
    if "written s \<noteq> []" for t s
    using that by (simp add: handle_text_def Let_def res_write_def)
  have c: "written (handle_tool_calls tcs s) \<noteq> [] \<and>
           hd (written (handle_tool_calls tcs s)) = hd (written s)"
    if "written s \<noteq> []" for tcs s
    using that by (simp add: handle_tool_calls_def Let_def first_fold res_write_def)
  have f: "written (handle_finish r s) \<noteq> [] \<and> hd (written (handle_finish r s)) = hd (written s)"
    if "written s \<noteq> []" for r s
    using that by (simp add: handle_finish_def Let_def res_write_def res_end_def first_close)
  show ?thesis
    using assms by (simp add: handle_chunk_def Let_def t c f split: list.splits option.splits)
qed

lemma first_run_data:
  assumes "written st \<noteq> [] \<and> hd (written st) = e"
  shows "written (run_data parse chunks st) \<noteq> [] \<and> hd (written (run_data parse chunks st)) = e"
  using assms
  by (rule run_data_inv [of "\<lambda>s. written s \<noteq> [] \<and> hd (written s) = e", rotated 2])
     (simp_all add: first_chunk)

text \<open>The \<open>data\<close> callback ends the response only in its finish-reason branch.\<close>

lemma ended_fold [simp]:
  "writableEnded (fold tool_fragment tcs st) = writableEnded st"
  by (induction tcs arbitrary: st) simp_all

lemma ended_by_finish:
  "writableEnded (fst (handle_chunk d st)) = (writableEnded st \<or> snd (handle_chunk d st))"
  by (auto simp: handle_chunk_def Let_def handle_finish_def res_end_def handle_text_def
      handle_tool_calls_def handle_usage_def split: list.splits option.splits)

text \<open>
  Claim C3 as stated: every streaming response ends with exactly one \<open>message_stop\<close>,
  preceded by exactly one \<open>message_delta\<close>. It does not when the backend stream ends (or
  fails) before an event with a finish reason: the \<open>end\<close> and \<open>error\<close> handlers only
  call \<open>res.end()\<close>. Here the backend sends one text delta and closes; the response is
  \<open>message_start\<close>, \<open>content_block_start\<close>, \<open>content_block_delta\<close>, and nothing else.
\<close>

theorem stream_ends_without_message_stop:
  \<open>written (handleStreaming example_parse (js ''1'') example_req
     [bytes ''data: {"choices":[{"delta":{"content":"Hel"}}]}\<newline>\<newline>''])
   = [MessageStart (js ''msg_1'') (js ''claude-sonnet-x'') 0 0,
      ContentBlockStart 0 (TextBlock []),
      ContentBlockDelta 0 (TextDelta (js ''Hel''))]\<close>
  by (simp add: stream_eval)

text \<open>The events written, by whether the \<open>data\<close> callback has ended the response.\<close>

lemma termination_by_flag:
  "\<exists>body.
     written (handleStreaming parse now req chunks)
       = MessageStart (js ''msg_'' @ now) (model req) 0 0 # body
     \<and> written (handleStreaming parse now req []) = [MessageStart (js ''msg_'' @ now) (model req) 0 0]
     \<and> (if writableEnded (run_data parse chunks (initial_state (js ''msg_'' @ now) (model req)))
        then \<exists>pre r n. body = pre @ [MessageDelta r n, MessageStop]
               \<and> list_all (\<lambda>e. \<not> terminal e) pre
        else list_all (\<lambda>e. \<not> terminal e) body)"
proof -
  let ?init = "initial_state (js ''msg_'' @ now) (model req)"
  let ?run = "run_data parse chunks ?init"
  let ?m = "MessageStart (js ''msg_'' @ now) (model req) 0 0"
  have w: "written (handleStreaming parse now req chunks) = written ?run"
    by (simp add: handleStreaming_def res_end_def)
  have "written ?init \<noteq> [] \<and> hd (written ?init) = ?m" by (simp add: initial_state_def)
  from first_run_data [OF this, of parse chunks]
  have "written ?run \<noteq> []" and "hd (written ?run) = ?m" by simp_all
  then have "written ?run = ?m # tl (written ?run)" by (cases "written ?run") simp_all
  then obtain body where body: "written ?run = ?m # body" ..
  have "well_terminated ?init" by (simp add: well_terminated_def initial_state_def)
  then have wt: "well_terminated ?run" by (rule well_terminated_run_data)
  have e: "written (handleStreaming parse now req []) = [?m]"
    by (simp add: handleStreaming_def run_data_def res_end_def initial_state_def)
  have t: "if writableEnded ?run
        then \<exists>pre r n. body = pre @ [MessageDelta r n, MessageStop]
               \<and> list_all (\<lambda>e. \<not> terminal e) pre
        else list_all (\<lambda>e. \<not> terminal e) body"
  proof (cases "writableEnded ?run")
    case True
    then obtain pre r n where p: "?m # body = pre @ [MessageDelta r n, MessageStop]"
      "list_all (\<lambda>e. \<not> terminal e) pre"
      using wt body by (auto simp: well_terminated_def)
    then obtain pre' where "pre = ?m # pre'" by (cases pre) auto
    then show ?thesis using p True by auto
  next
    case False
    then show ?thesis using wt body by (simp add: well_terminated_def)
  qed
  show ?thesis
  proof (intro exI conjI)
    show "written (handleStreaming parse now req chunks) = ?m # body"
      using w body by simp
    show "written (handleStreaming parse now req []) = [?m]" by (rule e)
    show "if writableEnded ?run
          then \<exists>pre r n. body = pre @ [MessageDelta r n, MessageStop]
                 \<and> list_all (\<lambda>e. \<not> terminal e) pre
          else list_all (\<lambda>e. \<not> terminal e) body"
      by (rule t)
  qed
qed

subsection \<open>The accumulated argument text is never read\<close>

lemma tool_fragment_toolCalls:
  "toolCalls (tool_fragment tc st) =
     map_set (frag_index tc)
       \<lparr>acc_id = str_or (tc_id tc) (acc_id (acc_before st (frag_index tc))),
        acc_name = str_or (fn_field fn_name tc) (acc_name (acc_before st (frag_index tc))),
        acc_arguments = acc_arguments (acc_before st (frag_index tc))
                        @ str_or (fn_field fn_arguments tc) []\<rparr>
       (toolCalls st)"
  by (simp add: tool_fragment_alt Let_def frag_index_def acc_before_def)

lemma tool_fragment_started:
  "toolBlocksStarted (tool_fragment tc st) =
     (if currentBlockIndex st + frag_index tc \<notin> toolBlocksStarted st
         \<and> str_or (fn_field fn_name tc) (acc_name (acc_before st (frag_index tc))) \<noteq> []
      then insert (currentBlockIndex st + frag_index tc) (toolBlocksStarted st)
      else toolBlocksStarted st)"
  by (simp add: tool_fragment_alt Let_def frag_index_def acc_before_def)

lemma tool_fragment_written:
  "written (tool_fragment tc st) =
     (if writableEnded st then written st
      else
        written st
        @ (if currentBlockIndex st + frag_index tc \<notin> toolBlocksStarted st
              \<and> str_or (fn_field fn_name tc) (acc_name (acc_before st (frag_index tc))) \<noteq> []
           then [ContentBlockStart (currentBlockIndex st + frag_index tc)
                   (ToolUseBlock
                      (str_or (tc_id tc) (acc_id (acc_before st (frag_index tc))))
                      (str_or (fn_field fn_name tc) (acc_name (acc_before st (frag_index tc))))
                      (JObject []))]
           else [])
        @ (if str_or (fn_field fn_arguments tc) [] \<noteq> []
              \<and> (currentBlockIndex st + frag_index tc \<in> toolBlocksStarted st
                 \<or> str_or (fn_field fn_name tc) (acc_name (acc_before st (frag_index tc))) \<noteq> [])
           then [ContentBlockDelta (currentBlockIndex st + frag_index tc)
                   (InputJsonDelta (str_or (fn_field fn_arguments tc) []))]
           else []))"
  by (simp add: tool_fragment_alt Let_def frag_index_def acc_before_def res_write_def)

lemma forget_fields [simp]:
  "buffer (forget_arguments st) = buffer st"
  "textBlockStarted (forget_arguments st) = textBlockStarted st"
  "currentBlockIndex (forget_arguments st) = currentBlockIndex st"
  "toolBlocksStarted (forget_arguments st) = toolBlocksStarted st"
  "inputTokens (forget_arguments st) = inputTokens st"
  "outputTokens (forget_arguments st) = outputTokens st"
  "written (forget_arguments st) = written st"
  "writableEnded (forget_arguments st) = writableEnded st"
  by (simp_all add: forget_arguments_def)

lemma erase_simps [simp]:
  "fst (erase_arguments p) = fst p"
  "erase_arguments (erase_arguments p) = erase_arguments p"
  by (simp_all add: erase_arguments_def)

lemma erase_keys: "map fst (map erase_arguments kvs) = map fst kvs"
  by (induction kvs) simp_all

lemma forget_toolCalls [simp]:
  "toolCalls (forget_arguments st) = map erase_arguments (toolCalls st)"
  by (simp add: forget_arguments_def)

lemma forget_eqI:
  assumes "buffer s = buffer s'" and "textBlockStarted s = textBlockStarted s'"
    and "currentBlockIndex s = currentBlockIndex s'"
    and "map erase_arguments (toolCalls s) = map erase_arguments (toolCalls s')"
    and "toolBlocksStarted s = toolBlocksStarted s'"
    and "inputTokens s = inputTokens s'" and "outputTokens s = outputTokens s'"
    and "written s = written s'" and "writableEnded s = writableEnded s'"
  shows "forget_arguments s = forget_arguments s'"
  by (rule stream_state.equality) (simp_all add: assms)

lemma forget_eqD:
  assumes "forget_arguments s = forget_arguments s'"
  shows "buffer s = buffer s'" and "textBlockStarted s = textBlockStarted s'"
    and "currentBlockIndex s = currentBlockIndex s'"
    and "map erase_arguments (toolCalls s) = map erase_arguments (toolCalls s')"
    and "toolBlocksStarted s = toolBlocksStarted s'"
    and "inputTokens s = inputTokens s'" and "outputTokens s = outputTokens s'"
    and "written s = written s'" and "writableEnded s = writableEnded s'"
  using arg_cong [OF assms, of buffer] arg_cong [OF assms, of textBlockStarted]
    arg_cong [OF assms, of currentBlockIndex] arg_cong [OF assms, of toolCalls]
    arg_cong [OF assms, of toolBlocksStarted] arg_cong [OF assms, of inputTokens]
    arg_cong [OF assms, of outputTokens] arg_cong [OF assms, of written]
    arg_cong [OF assms, of writableEnded]
  by simp_all

lemma forget_idem [simp]: "forget_arguments (forget_arguments st) = forget_arguments st"
  by (rule forget_eqI) (simp_all add: o_def)

lemma map_of_erase:
  "map_of (map erase_arguments kvs) i = map_option (\<lambda>a. a\<lparr>acc_arguments := []\<rparr>) (map_of kvs i)"
  by (induction kvs) (auto simp: erase_arguments_def)

lemma acc_before_erase:
  "acc_id (acc_before st i) =
     (case map_of (map erase_arguments (toolCalls st)) i of None \<Rightarrow> [] | Some a \<Rightarrow> acc_id a)"
  "acc_name (acc_before st i) =
     (case map_of (map erase_arguments (toolCalls st)) i of None \<Rightarrow> [] | Some a \<Rightarrow> acc_name a)"
  by (simp_all add: acc_before_def map_of_erase split: option.splits)

lemma erase_map_set:
  "map erase_arguments (map_set i v kvs) =
     map_set i (v\<lparr>acc_arguments := []\<rparr>) (map erase_arguments kvs)"
  by (induction kvs) (auto simp: erase_arguments_def)

lemma forget_fragment:
  assumes "forget_arguments s = forget_arguments s'"
  shows "forget_arguments (tool_fragment tc s) = forget_arguments (tool_fragment tc s')"
proof -
  note d = forget_eqD [OF assms]
  have i: "acc_id (acc_before s (frag_index tc)) = acc_id (acc_before s' (frag_index tc))"
    and n: "acc_name (acc_before s (frag_index tc)) = acc_name (acc_before s' (frag_index tc))"
    unfolding acc_before_erase d(4) by simp_all
  show ?thesis
  proof (rule forget_eqI)
    show "map erase_arguments (toolCalls (tool_fragment tc s)) =
          map erase_arguments (toolCalls (tool_fragment tc s'))"
      by (simp add: tool_fragment_toolCalls erase_map_set i n d(4))
    show "toolBlocksStarted (tool_fragment tc s) = toolBlocksStarted (tool_fragment tc s')"
      unfolding tool_fragment_started n d(3,5) by simp
    show "written (tool_fragment tc s) = written (tool_fragment tc s')"
      unfolding tool_fragment_written i n d(3,5,8,9) by simp
  qed (simp_all add: d)
qed

lemma forget_fold:
  "forget_arguments s = forget_arguments s' \<Longrightarrow>
   forget_arguments (fold tool_fragment tcs s) = forget_arguments (fold tool_fragment tcs s')"
proof (induction tcs arbitrary: s s')
  case Nil
  then show ?case by simp
next
  case (Cons tc tcs)
  have "forget_arguments (fold tool_fragment tcs (tool_fragment tc s)) =
        forget_arguments (fold tool_fragment tcs (tool_fragment tc s'))"
    by (rule Cons.IH) (rule forget_fragment [OF Cons.prems])
  then show ?case by simp
qed

text \<open>The other handlers do not read the accumulators, only their keys.\<close>

lemma forget_text:
  assumes "forget_arguments s = forget_arguments s'"
  shows "forget_arguments (handle_text t s) = forget_arguments (handle_text t s')"
proof -
  note d = forget_eqD [OF assms]
  show ?thesis
    by (rule forget_eqI) (simp_all add: handle_text_def Let_def res_write_def d)
qed

lemma forget_usage:
  assumes "forget_arguments s = forget_arguments s'"
  shows "forget_arguments (handle_usage u s) = forget_arguments (handle_usage u s')"
proof -
  note d = forget_eqD [OF assms]
  show ?thesis
    by (rule forget_eqI) (simp_all add: handle_usage_def d)
qed

lemma close_written:
  assumes "written s = written s'" and "writableEnded s = writableEnded s'"
    and "currentBlockIndex s = currentBlockIndex s'"
    and "toolBlocksStarted s = toolBlocksStarted s'"
  shows "written (close_tool_blocks ks s) = written (close_tool_blocks ks s')"
  using assms
proof (induction ks arbitrary: s s')
  case Nil
  then show ?case by simp
next
  case (Cons k ks)
  show ?case
    unfolding close_tool_blocks.simps Let_def
    by (rule Cons.IH) (simp_all add: Cons.prems res_write_def)
qed

lemma forget_finish:
  assumes "forget_arguments s = forget_arguments s'"
  shows "forget_arguments (handle_finish r s) = forget_arguments (handle_finish r s')"
proof -
  note d = forget_eqD [OF assms]
  have k: "map fst (toolCalls s) = map fst (toolCalls s')"
    using arg_cong [OF d(4), of "map fst"] by (simp only: erase_keys)
  have c: "written (close_tool_blocks (map fst (toolCalls s))
              (if textBlockStarted s
               then res_write (ContentBlockStop (currentBlockIndex s)) s else s)) =
           written (close_tool_blocks (map fst (toolCalls s'))
              (if textBlockStarted s'
               then res_write (ContentBlockStop (currentBlockIndex s')) s' else s'))"
    unfolding k by (rule close_written) (simp_all add: d res_write_def)
  have fw: "written (handle_finish r x) =
      (if writableEnded x
       then written (close_tool_blocks (map fst (toolCalls x))
              (if textBlockStarted x
               then res_write (ContentBlockStop (currentBlockIndex x)) x else x))
       else written (close_tool_blocks (map fst (toolCalls x))
              (if textBlockStarted x
               then res_write (ContentBlockStop (currentBlockIndex x)) x else x))
            @ [MessageDelta (if r = js ''tool_calls'' then ToolUse else EndTurn) (outputTokens x),
               MessageStop])" for x
    by (simp add: handle_finish_def Let_def res_write_def res_end_def)
  show ?thesis
  proof (rule forget_eqI)
    show "written (handle_finish r s) = written (handle_finish r s')"
      by (simp only: fw c d(7) d(9))
  qed (simp_all add: handle_finish_def Let_def res_end_def d)
qed

lemma forget_tool_calls:
  assumes "forget_arguments s = forget_arguments s'"
  shows "forget_arguments (handle_tool_calls tcs s) = forget_arguments (handle_tool_calls tcs s')"
proof -
  note d = forget_eqD [OF assms]
  have "forget_arguments
          ((res_write (ContentBlockStop (currentBlockIndex s)) s)
             \<lparr>currentBlockIndex := currentBlockIndex s + 1, textBlockStarted := False\<rparr>) =
        forget_arguments
          ((res_write (ContentBlockStop (currentBlockIndex s')) s')
             \<lparr>currentBlockIndex := currentBlockIndex s' + 1, textBlockStarted := False\<rparr>)"
    by (rule forget_eqI) (simp_all add: d res_write_def)
  note pre = this
  show ?thesis
  proof (cases "textBlockStarted s \<and> toolBlocksStarted s = {}")
    case True
    then have T: "textBlockStarted s' \<and> toolBlocksStarted s' = {}" using d by simp
    show ?thesis
      unfolding handle_tool_calls_def Let_def if_P [OF True] if_P [OF T]
      by (rule forget_fold [OF pre])
  next
    case False
    then have F: "\<not> (textBlockStarted s' \<and> toolBlocksStarted s' = {})" using d by simp
    show ?thesis
      unfolding handle_tool_calls_def Let_def if_not_P [OF False] if_not_P [OF F]
      by (rule forget_fold [OF assms])
  qed
qed

lemma handle_chunk_fst:
  "fst (handle_chunk d st) =
     (case (case choices d of None \<Rightarrow> [] | Some cs \<Rightarrow> cs) of
        [] \<Rightarrow> st
      | choice # _ \<Rightarrow>
          if truthy (finish_reason choice)
          then handle_finish (str_or (finish_reason choice) []) st
          else
            (case usage d of None \<Rightarrow> (\<lambda>x. x) | Some u \<Rightarrow> handle_usage u)
              ((case delta_tool_calls
                       (case delta choice of
                          None \<Rightarrow> \<lparr>delta_content = None, delta_tool_calls = None\<rparr>
                        | Some d' \<Rightarrow> d') of
                  None \<Rightarrow> (\<lambda>x. x) | Some tcs \<Rightarrow> handle_tool_calls tcs)
                 ((if truthy (delta_content
                       (case delta choice of
                          None \<Rightarrow> \<lparr>delta_content = None, delta_tool_calls = None\<rparr>
                        | Some d' \<Rightarrow> d'))
                   then handle_text (str_or (delta_content
                       (case delta choice of
                          None \<Rightarrow> \<lparr>delta_content = None, delta_tool_calls = None\<rparr>
                        | Some d' \<Rightarrow> d')) [])
                   else (\<lambda>x. x)) st)))"
  by (simp add: handle_chunk_def Let_def split: list.splits option.splits)

lemma handle_chunk_snd:
  "snd (handle_chunk d st) =
     (case (case choices d of None \<Rightarrow> [] | Some cs \<Rightarrow> cs) of
        [] \<Rightarrow> False
      | choice # _ \<Rightarrow> truthy (finish_reason choice))"
  by (simp add: handle_chunk_def Let_def split: list.splits option.splits)

lemma forget_chunk:
  assumes "forget_arguments s = forget_arguments s'"
  shows "forget_arguments (fst (handle_chunk d s)) = forget_arguments (fst (handle_chunk d s'))"
proof -
  have u: "forget_arguments ((case ou of None \<Rightarrow> (\<lambda>x. x) | Some u \<Rightarrow> handle_usage u) x) =
           forget_arguments ((case ou of None \<Rightarrow> (\<lambda>x. x) | Some u \<Rightarrow> handle_usage u) y)"
    if "forget_arguments x = forget_arguments y" for ou x y
    using that by (cases ou) (simp_all add: forget_usage [of x y])
  have c: "forget_arguments ((case ot of None \<Rightarrow> (\<lambda>x. x) | Some tcs \<Rightarrow> handle_tool_calls tcs) x) =
           forget_arguments ((case ot of None \<Rightarrow> (\<lambda>x. x) | Some tcs \<Rightarrow> handle_tool_calls tcs) y)"
    if "forget_arguments x = forget_arguments y" for ot x y
    using that by (cases ot) (simp_all add: forget_tool_calls [of x y])
  have t: "forget_arguments ((if b then handle_text t else (\<lambda>x. x)) x) =
           forget_arguments ((if b then handle_text t else (\<lambda>x. x)) y)"
    if "forget_arguments x = forget_arguments y" for b t x y
    using that by (cases b) (simp_all add: forget_text [of x y])
  show ?thesis
  proof (cases "case choices d of None \<Rightarrow> [] | Some cs \<Rightarrow> cs")
    case Nil
    then show ?thesis using assms by (simp add: handle_chunk_fst)
  next
    case (Cons choice rest)
    show ?thesis
    proof (cases "truthy (finish_reason choice)")
      case True
      then show ?thesis
        using Cons forget_finish [OF assms] by (simp add: handle_chunk_fst)
    next
      case False
      show ?thesis
        unfolding handle_chunk_fst Cons list.case if_not_P [OF False]
        by (intro u c t assms)
    qed
  qed
qed

lemma forget_process_line:
  assumes "forget_arguments s = forget_arguments s'"
  shows "forget_arguments (fst (process_line parse l s)) =
         forget_arguments (fst (process_line parse l s'))"
    and "snd (process_line parse l s) = snd (process_line parse l s')"
  using assms forget_chunk [OF assms]
  by (simp_all add: process_line_def Let_def handle_chunk_snd split: option.splits)

lemma forget_process_lines:
  "forget_arguments s = forget_arguments s' \<Longrightarrow>
   forget_arguments (process_lines parse ls s) = forget_arguments (process_lines parse ls s')"
proof (induction ls arbitrary: s s')
  case Nil
  then show ?case by simp
next
  case (Cons l ls)
  obtain x fx where x: "process_line parse l s = (x, fx)" by (cases "process_line parse l s")
  obtain y fy where y: "process_line parse l s' = (y, fy)" by (cases "process_line parse l s'")
  have xy: "forget_arguments x = forget_arguments y" and f: "fx = fy"
    using forget_process_line [OF Cons.prems, of parse l] x y by simp_all
  show ?case
  proof (cases fx)
    case True
    then show ?thesis using x y xy f by simp
  next
    case False
    then show ?thesis using x y f Cons.IH [OF xy] by simp
  qed
qed

lemma forget_on_text:
  assumes "forget_arguments s = forget_arguments s'"
  shows "forget_arguments (on_text parse t s) = forget_arguments (on_text parse t s')"
proof -
  note d = forget_eqD [OF assms]
  have "forget_arguments (s\<lparr>buffer := b\<rparr>) = forget_arguments (s'\<lparr>buffer := b\<rparr>)" for b
    by (rule forget_eqI) (simp_all add: d)
  then show ?thesis
    unfolding on_text_def Let_def d(1) by (rule forget_process_lines)
qed

lemma forget_on_data:
  assumes "forget_arguments s = forget_arguments s'"
  shows "forget_arguments (on_data parse c s) = forget_arguments (on_data parse c s')"
  unfolding on_data_def by (rule forget_on_text [OF assms])

lemma forget_run_data:
  "forget_arguments s = forget_arguments s' \<Longrightarrow>
   forget_arguments (run_data parse chunks s) = forget_arguments (run_data parse chunks s')"
  unfolding run_data_def
proof (induction chunks arbitrary: s s')
  case Nil
  then show ?case by simp
next
  case (Cons c cs)
  have "forget_arguments (fold (on_data parse) cs (on_data parse c s)) =
        forget_arguments (fold (on_data parse) cs (on_data parse c s'))"
    by (rule Cons.IH) (rule forget_on_data [OF Cons.prems])
  then show ?case by simp
qed

lemma written_forget_run_data:
  "written (run_data parse chunks st) = written (run_data parse chunks (forget_arguments st))"
proof -
  have "forget_arguments st = forget_arguments (forget_arguments st)" by simp
  from arg_cong [OF forget_run_data [OF this, of parse chunks], of written]
  show ?thesis by simp
qed

lemma early_fragment:
  assumes "tool_inv st" and "\<not> named st (frag_index tc)" and "\<not> truthy (fn_field fn_name tc)"
  shows "written (tool_fragment tc st) = written st"
    and "toolBlocksStarted (tool_fragment tc st) = toolBlocksStarted st"
    and "map_of (toolCalls (tool_fragment tc st)) (frag_index tc) =
           Some \<lparr>acc_id = str_or (tc_id tc) (acc_id (acc_before st (frag_index tc))),
                 acc_name = [],
                 acc_arguments = acc_arguments (acc_before st (frag_index tc))
                                 @ str_or (fn_field fn_arguments tc) []\<rparr>"
proof -
  have n: "acc_name (acc_before st (frag_index tc)) = []"
    using assms(2) by (simp add: named_def acc_before_def split: option.splits)
  have e: "str_or (fn_field fn_name tc) [] = []"
    using assms(3) by (simp add: truthy_str_or)
  have b: "currentBlockIndex st + frag_index tc \<notin> toolBlocksStarted st"
    using assms(1,2) by (simp add: tool_inv_def)
  show "written (tool_fragment tc st) = written st"
    by (simp add: tool_fragment_written n e b)
  show "toolBlocksStarted (tool_fragment tc st) = toolBlocksStarted st"
    by (simp add: tool_fragment_started n e)
  show "map_of (toolCalls (tool_fragment tc st)) (frag_index tc) =
           Some \<lparr>acc_id = str_or (tc_id tc) (acc_id (acc_before st (frag_index tc))),
                 acc_name = [],
                 acc_arguments = acc_arguments (acc_before st (frag_index tc))
                                 @ str_or (fn_field fn_arguments tc) []\<rparr>"
    by (simp add: tool_fragment_toolCalls n e)
qed

lemma tool_start_atD:
  "tool_start_at b e \<Longrightarrow> \<exists>i n inp. e = ContentBlockStart b (ToolUseBlock i n inp)"
  by (induction b e rule: tool_start_at.induct) simp_all

lemma delta_after_start:
  assumes "deltas_follow_starts w" and "list_all empty_input w"
    and "k < length w" and "w ! k = ContentBlockDelta b (InputJsonDelta a)"
  shows "\<exists>j<k. \<exists>i n. w ! j = ContentBlockStart b (ToolUseBlock i n (JObject []))"
proof -
  have "b \<in> tool_starts (take k w)"
    using assms(1,3,4) by (simp add: deltas_follow_starts_def)
  then obtain e where e: "e \<in> set (take k w)" "tool_start_at b e"
    by (auto simp: tool_starts_def)
  then obtain j where j: "j < k" "j < length w" "w ! j = e"
    using assms(3) by (auto simp: in_set_conv_nth)
  then have "empty_input e" using assms(2) by (auto simp: list_all_length)
  moreover obtain i n inp where "e = ContentBlockStart b (ToolUseBlock i n inp)"
    using tool_start_atD [OF e(2)] by blast
  ultimately show ?thesis using j by auto
qed

text \<open>
  Claim C10. In the outbound event sequence of the streaming translator, every
  \<open>input_json_delta\<close> comes after a tool_use \<open>content_block_start\<close> with the same block
  index, and that start carries the empty object as input. A fragment that arrives while
  no name has been observed for its upstream index, and that carries no name itself,
  writes nothing and starts no block: its arguments text is only appended to the
  accumulator of its index. And the accumulated argument text is never read back: the
  events written from any state on are the same as from the state with all accumulated
  argument text erased. So argument text that arrived before the name never reaches the
  client.
\<close>

theorem early_arguments_not_emitted:
  "(\<forall>k b a. k < length (written (handleStreaming parse now req chunks)) \<and>
        written (handleStreaming parse now req chunks) ! k = ContentBlockDelta b (InputJsonDelta a)
      \<longrightarrow> (\<exists>j<k. \<exists>i n. written (handleStreaming parse now req chunks) ! j
                        = ContentBlockStart b (ToolUseBlock i n (JObject []))))
   \<and> (tool_inv st \<and> \<not> named st (frag_index tc) \<and> \<not> truthy (fn_field fn_name tc) \<longrightarrow>
        written (tool_fragment tc st) = written st \<and>
        toolBlocksStarted (tool_fragment tc st) = toolBlocksStarted st \<and>
        (\<exists>a. map_of (toolCalls (tool_fragment tc st)) (frag_index tc) = Some a \<and>
             acc_arguments a = acc_arguments (acc_before st (frag_index tc))
                               @ str_or (fn_field fn_arguments tc) []))
   \<and> written (run_data parse chunks st) = written (run_data parse chunks (forget_arguments st))"
proof (intro conjI allI impI)
  fix k b a
  assume "k < length (written (handleStreaming parse now req chunks)) \<and>
        written (handleStreaming parse now req chunks) ! k = ContentBlockDelta b (InputJsonDelta a)"
  then show "\<exists>j<k. \<exists>i n. written (handleStreaming parse now req chunks) ! j
                        = ContentBlockStart b (ToolUseBlock i n (JObject []))"
    using delta_after_start [OF ordered_handleStreaming empty_input_handleStreaming] by blast
next
  assume h: "tool_inv st \<and> \<not> named st (frag_index tc) \<and> \<not> truthy (fn_field fn_name tc)"
  then show "written (tool_fragment tc st) = written st"
    and "toolBlocksStarted (tool_fragment tc st) = toolBlocksStarted st"
    using early_fragment(1,2) by blast+
  show "\<exists>a. map_of (toolCalls (tool_fragment tc st)) (frag_index tc) = Some a \<and>
             acc_arguments a = acc_arguments (acc_before st (frag_index tc))
                               @ str_or (fn_field fn_arguments tc) []"
    using early_fragment(3) [of st tc] h by simp
next
  show "written (run_data parse chunks st) = written (run_data parse chunks (forget_arguments st))"
    by (rule written_forget_run_data)
qed

theorem early_arguments_not_emitted_witness:
  "written (tool_fragment weather_args (initial_state (js ''msg_1'') (js ''m'')))
     = [MessageStart (js ''msg_1'') (js ''m'') 0 0]
   \<and> written (tool_fragment weather_call
        (tool_fragment weather_args (initial_state (js ''msg_1'') (js ''m''))))
     = [MessageStart (js ''msg_1'') (js ''m'') 0 0,
        ContentBlockStart 0 (ToolUseBlock (js ''call_1'') (js ''get_weather'') (JObject []))]"
proof -
  let ?i = "initial_state (js ''msg_1'') (js ''m'')"
  have h: "tool_inv ?i \<and> \<not> named ?i (frag_index weather_args)
           \<and> \<not> truthy (fn_field fn_name weather_args)"
    by (simp add: tool_inv_initial)
       (simp add: named_def initial_state_def frag_index_def weather_args_def truthy_def
          fn_field_def)
  from early_arguments_not_emitted [where st = ?i and tc = weather_args] h
  have "written (tool_fragment weather_args ?i) = written ?i" by blast
  then have a: "written (tool_fragment weather_args ?i) = [MessageStart (js ''msg_1'') (js ''m'') 0 0]"
    by (simp add: initial_state_def)
  have b: "written (tool_fragment weather_call (tool_fragment weather_args ?i))
     = [MessageStart (js ''msg_1'') (js ''m'') 0 0,
        ContentBlockStart 0 (ToolUseBlock (js ''call_1'') (js ''get_weather'') (JObject []))]"
    by (simp add: stream_eval)
  show ?thesis using a b by simp
qed

subsection \<open>Malformed tool arguments\<close>








section \<open>The streaming translator: chunk boundaries\<close>

subsection \<open>Splitting\<close>

lemma split_nl_nonempty [simp]: "split_nl s \<noteq> []"
  by (induction s) (auto split: list.splits)

lemma pop_or_empty_last: "pop_or_empty (split_nl s) = last (split_nl s)"
  using split_nl_nonempty [of s]
  by (cases "split_nl s" rule: rev_cases) (simp_all add: pop_or_empty_def)

lemma split_nl_append:
  "split_nl (a @ b) = butlast (split_nl a) @ split_nl (last (split_nl a) @ b)"
proof (induction a)
  case Nil
  then show ?case by simp
next
  case (Cons c cs)
  obtain l ls where s: "split_nl cs = l # ls" using split_nl_nonempty [of cs] by (cases "split_nl cs") auto
  show ?case
  proof (cases "c = 10")
    case True
    then show ?thesis using Cons s by simp
  next
    case False
    show ?thesis
    proof (cases ls)
      case Nil
      then show ?thesis using False Cons s by simp
    next
      case (Cons l' ls')
      then show ?thesis using False Cons.IH s by simp
    qed
  qed
qed

lemma split_nl_no_newline: "10 \<notin> set s \<Longrightarrow> split_nl s = [s]"
  by (induction s) auto

lemma last_split_nl_no_newline: "10 \<notin> set (last (split_nl s))"
proof (induction s)
  case Nil
  then show ?case by simp
next
  case (Cons c cs)
  obtain l ls where s: "split_nl cs = l # ls" using split_nl_nonempty [of cs] by (cases "split_nl cs") auto
  then show ?case using Cons by (cases ls) auto
qed

subsection \<open>The handlers neither read nor write the line buffer\<close>

lemma buf_write: "res_write e (st\<lparr>buffer := b\<rparr>) = (res_write e st)\<lparr>buffer := b\<rparr>"
  by (simp add: res_write_def)

lemma buf_fragment: "tool_fragment tc (st\<lparr>buffer := b\<rparr>) = (tool_fragment tc st)\<lparr>buffer := b\<rparr>"
  by (simp add: tool_fragment_alt Let_def res_write_def)

lemma buf_fold:
  "fold tool_fragment tcs (st\<lparr>buffer := b\<rparr>) = (fold tool_fragment tcs st)\<lparr>buffer := b\<rparr>"
  by (induction tcs arbitrary: st) (simp_all add: buf_fragment)

lemma buf_tool_calls:
  "handle_tool_calls tcs (st\<lparr>buffer := b\<rparr>) = (handle_tool_calls tcs st)\<lparr>buffer := b\<rparr>"
proof (cases "textBlockStarted st \<and> toolBlocksStarted st = {}")
  case True
  let ?y = "(res_write (ContentBlockStop (currentBlockIndex st)) st)
              \<lparr>currentBlockIndex := currentBlockIndex st + 1, textBlockStarted := False\<rparr>"
  have T: "textBlockStarted (st\<lparr>buffer := b\<rparr>) \<and> toolBlocksStarted (st\<lparr>buffer := b\<rparr>) = {}"
    using True by simp
  have e: "(res_write (ContentBlockStop (currentBlockIndex (st\<lparr>buffer := b\<rparr>))) (st\<lparr>buffer := b\<rparr>))
             \<lparr>currentBlockIndex := currentBlockIndex (st\<lparr>buffer := b\<rparr>) + 1,
              textBlockStarted := False\<rparr>
           = ?y\<lparr>buffer := b\<rparr>"
    by (simp add: res_write_def)
  show ?thesis
    unfolding handle_tool_calls_def Let_def if_P [OF T] if_P [OF True] e
    by (rule buf_fold)
next
  case False
  then have F: "\<not> (textBlockStarted (st\<lparr>buffer := b\<rparr>) \<and> toolBlocksStarted (st\<lparr>buffer := b\<rparr>) = {})"
    by simp
  show ?thesis
    unfolding handle_tool_calls_def Let_def if_not_P [OF F] if_not_P [OF False]
    by (rule buf_fold)
qed

lemma buf_text: "handle_text t (st\<lparr>buffer := b\<rparr>) = (handle_text t st)\<lparr>buffer := b\<rparr>"
  by (simp add: handle_text_def Let_def res_write_def)

lemma buf_close:
  "close_tool_blocks ks (st\<lparr>buffer := b\<rparr>) = (close_tool_blocks ks st)\<lparr>buffer := b\<rparr>"
  by (induction ks arbitrary: st) (simp_all add: Let_def buf_write)

lemma buf_finish: "handle_finish r (st\<lparr>buffer := b\<rparr>) = (handle_finish r st)\<lparr>buffer := b\<rparr>"
  by (simp add: handle_finish_def Let_def buf_write buf_close res_end_def)

lemma buf_usage: "handle_usage u (st\<lparr>buffer := b\<rparr>) = (handle_usage u st)\<lparr>buffer := b\<rparr>"
  by (simp add: handle_usage_def)

lemma buf_chunk:
  "fst (handle_chunk d (st\<lparr>buffer := b\<rparr>)) = (fst (handle_chunk d st))\<lparr>buffer := b\<rparr>"
  by (simp add: handle_chunk_fst buf_finish buf_text buf_tool_calls buf_usage
      split: list.splits option.splits)

lemma buf_process_line:
  "fst (process_line parse l (st\<lparr>buffer := b\<rparr>)) = (fst (process_line parse l st))\<lparr>buffer := b\<rparr>"
  by (simp add: process_line_def Let_def buf_chunk split: option.splits)

lemma buf_process_all:
  "process_all parse ls (st\<lparr>buffer := b\<rparr>) = (process_all parse ls st)\<lparr>buffer := b\<rparr>"
  by (induction ls arbitrary: st) (simp_all add: buf_process_line)

subsection \<open>Leaving the loop early does not change what is written\<close>

lemma returned_ended: "snd (handle_chunk d st) \<Longrightarrow> writableEnded (fst (handle_chunk d st))"
  by (auto simp: handle_chunk_fst handle_chunk_snd handle_finish_def Let_def res_end_def
      split: list.splits)

lemma returned_ended_line:
  "snd (process_line parse l st) \<Longrightarrow> writableEnded (fst (process_line parse l st))"
  by (auto simp: process_line_def Let_def returned_ended split: option.splits if_splits)

lemma frozen_line:
  "writableEnded st \<Longrightarrow>
   written (fst (process_line parse l st)) = written st \<and>
   writableEnded (fst (process_line parse l st))"
  by (auto simp: process_line_def Let_def frozen_chunk split: option.splits)

lemma frozen_all:
  "writableEnded st \<Longrightarrow>
   written (process_all parse ls st) = written st \<and> writableEnded (process_all parse ls st)"
  by (induction ls arbitrary: st) (simp_all add: frozen_line)

lemma same_output_refl [simp]: "same_output s s"
  by (simp add: same_output_def)

lemma same_output_written:
  assumes "same_output s r"
  shows "written s = written r"
proof -
  have "written s = written r" if e: "s\<lparr>buffer := []\<rparr> = r\<lparr>buffer := []\<rparr>"
    using arg_cong [OF e, of written] by simp
  then show ?thesis using assms by (auto simp: same_output_def)
qed

lemma same_output_ended:
  assumes "same_output s r"
  shows "writableEnded s = writableEnded r"
proof -
  have "writableEnded s = writableEnded r" if e: "s\<lparr>buffer := []\<rparr> = r\<lparr>buffer := []\<rparr>"
    using arg_cong [OF e, of writableEnded] by simp
  then show ?thesis using assms by (auto simp: same_output_def)
qed

lemma same_output_trans:
  assumes "same_output s r" and "same_output r q"
  shows "same_output s q"
proof (cases "writableEnded s")
  case True
  then show ?thesis
    using assms same_output_written [OF assms(1)] same_output_written [OF assms(2)]
      same_output_ended [OF assms(1)] same_output_ended [OF assms(2)]
    by (simp add: same_output_def)
next
  case False
  then have "\<not> writableEnded r" using same_output_ended [OF assms(1)] by simp
  then show ?thesis using False assms by (auto simp: same_output_def)
qed

lemma same_output_buffer: "same_output (s\<lparr>buffer := b\<rparr>) s"
  by (simp add: same_output_def)

lemma process_lines_all:
  "same_output (process_lines parse ls st) (process_all parse ls st)"
proof (induction ls arbitrary: st)
  case Nil
  then show ?case by simp
next
  case (Cons l ls)
  obtain x fl where x: "process_line parse l st = (x, fl)" by (cases "process_line parse l st")
  show ?case
  proof (cases fl)
    case True
    then have "writableEnded x" using returned_ended_line [of parse l st] x by simp
    then show ?thesis using x True frozen_all [of x parse ls] by (simp add: same_output_def)
  next
    case False
    then show ?thesis using x Cons.IH [of x] by simp
  qed
qed

lemma same_output_all:
  assumes "same_output s r"
  shows "same_output (process_all parse ls s) (process_all parse ls r)"
proof (cases "writableEnded s")
  case True
  then have "writableEnded r" using same_output_ended [OF assms] by simp
  then show ?thesis
    using True frozen_all [of s parse ls] frozen_all [of r parse ls] same_output_written [OF assms]
    by (simp add: same_output_def)
next
  case False
  then have "s\<lparr>buffer := []\<rparr> = r\<lparr>buffer := []\<rparr>"
    using assms by (auto simp: same_output_def)
  then have "process_all parse ls (s\<lparr>buffer := []\<rparr>) = process_all parse ls (r\<lparr>buffer := []\<rparr>)"
    by simp
  then show ?thesis by (simp add: buf_process_all same_output_def)
qed

lemma process_all_append:
  "process_all parse (xs @ ys) st = process_all parse ys (process_all parse xs st)"
  by (induction xs arbitrary: st) simp_all

lemma buffer_process_lines: "buffer (process_lines parse ls st) = buffer st"
proof -
  have "buffer (fst (handle_chunk d s)) = buffer s" for d s
    using arg_cong [OF buf_chunk [where d = d and st = s and b = "buffer s"], of buffer] by simp
  then show ?thesis
    using process_lines_inv [where I = "\<lambda>x. buffer x = buffer st" and st = st
        and parse = parse and ls = ls] by simp
qed

lemma fold_on_text_all:
  "10 \<notin> set (buffer st) \<Longrightarrow>
   same_output (fold (on_text parse) ts st)
     (process_all parse (butlast (split_nl (buffer st @ concat ts))) st)"
proof (induction ts arbitrary: st)
  case Nil
  then show ?case by (simp add: split_nl_no_newline)
next
  case (Cons t ts)
  let ?l1 = "butlast (split_nl (buffer st @ t))"
  let ?b1 = "last (split_nl (buffer st @ t))"
  let ?l2 = "butlast (split_nl (?b1 @ concat ts))"
  let ?s1 = "on_text parse t st"
  have s1: "?s1 = process_lines parse ?l1 (st\<lparr>buffer := ?b1\<rparr>)"
    by (simp add: on_text_def Let_def pop_or_empty_last)
  have b1: "buffer ?s1 = ?b1" unfolding s1 by (simp add: buffer_process_lines)
  have nl: "10 \<notin> set (buffer ?s1)" unfolding b1 by (rule last_split_nl_no_newline)
  have 1: "same_output (fold (on_text parse) ts ?s1) (process_all parse ?l2 ?s1)"
    using Cons.IH [OF nl] b1 by simp
  have "same_output ?s1 (process_all parse ?l1 (st\<lparr>buffer := ?b1\<rparr>))"
    unfolding s1 by (rule process_lines_all)
  moreover have "same_output (process_all parse ?l1 (st\<lparr>buffer := ?b1\<rparr>)) (process_all parse ?l1 st)"
    unfolding buf_process_all by (rule same_output_buffer)
  ultimately have "same_output ?s1 (process_all parse ?l1 st)" by (rule same_output_trans)
  then have 2: "same_output (process_all parse ?l2 ?s1) (process_all parse ?l2 (process_all parse ?l1 st))"
    by (rule same_output_all)
  have "split_nl (buffer st @ concat (t # ts)) = ?l1 @ split_nl (?b1 @ concat ts)"
    using split_nl_append [of "buffer st @ t" "concat ts"] by simp
  then have 3: "butlast (split_nl (buffer st @ concat (t # ts))) = ?l1 @ ?l2"
    by (simp add: butlast_append)
  show ?case
    unfolding 3 process_all_append
    using same_output_trans [OF 1 2] by simp
qed

lemma text_chunking_irrelevant:
  assumes "10 \<notin> set (buffer st)" and "concat ts = concat ts'"
  shows "written (fold (on_text parse) ts st) = written (fold (on_text parse) ts' st)"
  using same_output_written [OF fold_on_text_all [OF assms(1), of parse ts]]
    same_output_written [OF fold_on_text_all [OF assms(1), of parse ts']] assms(2)
  by simp

lemma run_data_fold: "run_data parse chunks st = fold (on_text parse) (map toString chunks) st"
proof -
  have "on_data parse = (\<lambda>x. on_text parse (toString x))"
    by (intro ext) (simp add: on_data_def)
  then show ?thesis by (simp add: run_data_def fold_map o_def)
qed

lemma decoded_chunking_irrelevant:
  assumes "concat (map toString chunks) = concat (map toString chunks')"
  shows "written (handleStreaming parse now req chunks) =
         written (handleStreaming parse now req chunks')"
  using text_chunking_irrelevant [of "initial_state (js ''msg_'' @ now) (model req)"
      "map toString chunks" "map toString chunks'" parse] assms
  by (simp add: handleStreaming_def res_end_def run_data_fold initial_state_def)

subsection \<open>Chunks of ASCII bytes\<close>

lemma utf8_decode_ascii:
  "\<forall>b\<in>set a. b \<le> 0x7F \<Longrightarrow> utf8_decode None (a @ bs) = a @ utf8_decode None bs"
  by (induction a) (simp_all add: utf8_lead_def)

lemma toString_ascii_append:
  assumes "\<forall>b\<in>set a. unat b \<le> 0x7F"
  shows "toString (a @ c) = toString a @ toString c"
proof -
  have "\<forall>b\<in>set (map unat a). b \<le> 0x7F" using assms by simp
  from utf8_decode_ascii [OF this] show ?thesis
    using utf8_decode_ascii [OF \<open>\<forall>b\<in>set (map unat a). b \<le> 0x7F\<close>, of "[]"]
    by (simp add: toString_def)
qed

lemma concat_toString_ascii:
  "\<forall>c\<in>set cs. \<forall>b\<in>set c. unat b \<le> 0x7F \<Longrightarrow>
   concat (map toString cs) = toString (concat cs)"
proof (induction cs)
  case Nil
  then show ?case by (simp add: toString_def)
next
  case (Cons c cs)
  then show ?case by (simp add: toString_ascii_append)
qed

lemma ascii_chunking_irrelevant:
  assumes "\<forall>c\<in>set chunks. \<forall>b\<in>set c. unat b \<le> 0x7F"
    and "\<forall>c\<in>set chunks'. \<forall>b\<in>set c. unat b \<le> 0x7F"
    and "concat chunks = concat chunks'"
  shows "written (handleStreaming parse now req chunks) =
         written (handleStreaming parse now req chunks')"
  by (rule decoded_chunking_irrelevant)
     (simp add: concat_toString_ascii assms)

lemma skipped_lines:
  "\<not> startsWith line (js ''data: '') \<Longrightarrow> process_line parse line st = (st, False)"
  "trim (drop 6 line) = js ''[DONE]'' \<Longrightarrow> process_line parse line st = (st, False)"
  "parse (trim (drop 6 line)) = None \<Longrightarrow> process_line parse line st = (st, False)"
  by (simp_all add: process_line_def Let_def)

text \<open>
  Claim C5 at a concrete byte stream. The backend sends one data line whose text delta is
  the character U+00E9, two bytes in UTF-8. Delivered as one chunk, the line yields a
  text delta with that character. Delivered as two chunks that split the character, each
  chunk is decoded on its own by \<open>chunk.toString()\<close>, both halves become U+FFFD, and the
  text delta carries two replacement characters: the same bytes, another event sequence.
  Where the chunk boundaries do not change the decoded text the events do not depend on
  them (\<open>decoded_chunking_irrelevant\<close>; for ASCII bytes \<open>ascii_chunking_irrelevant\<close>),
  and lines without the data marker, \<open>[DONE]\<close> payloads and unparseable payloads are
  skipped (\<open>skipped_lines\<close>).
\<close>

theorem split_character_changes_output:
  \<open>written (handleStreaming example_parse (js ''1'') example_req
      [bytes ''data: {"choices":[{"delta":{"content":"'' @ [0xC3, 0xA9] @ bytes ''"}}]}\<newline>''])
    = [MessageStart (js ''msg_1'') (js ''claude-sonnet-x'') 0 0,
       ContentBlockStart 0 (TextBlock []),
       ContentBlockDelta 0 (TextDelta [0xE9])]
   \<and> written (handleStreaming example_parse (js ''1'') example_req
      [bytes ''data: {"choices":[{"delta":{"content":"'' @ [0xC3],
       [0xA9] @ bytes ''"}}]}\<newline>''])
    = [MessageStart (js ''msg_1'') (js ''claude-sonnet-x'') 0 0,
       ContentBlockStart 0 (TextBlock []),
       ContentBlockDelta 0 (TextDelta [0xFFFD, 0xFFFD])]\<close>
  by (simp add: stream_eval)

subsection \<open>The response ends exactly when a line carries a finish reason\<close>

lemma returns_on_finish_line: "snd (process_line parse l st) = finish_line parse l"
  by (simp add: process_line_def finish_line_def Let_def handle_chunk_snd truthy_def
      split: option.splits list.splits)

lemma ended_line:
  "writableEnded (fst (process_line parse l st)) = (writableEnded st \<or> finish_line parse l)"
proof -
  have "writableEnded (fst (process_line parse l st)) =
        (writableEnded st \<or> snd (process_line parse l st))"
    by (simp add: process_line_def Let_def ended_by_finish split: option.splits)
  then show ?thesis by (simp add: returns_on_finish_line)
qed

lemma ended_all:
  "writableEnded (process_all parse ls st) =
     (writableEnded st \<or> (\<exists>l\<in>set ls. finish_line parse l))"
  by (induction ls arbitrary: st) (auto simp: ended_line)

lemma ended_run_data:
  "writableEnded (run_data parse chunks (initial_state msgId m)) =
     (\<exists>l\<in>set (complete_lines chunks). finish_line parse l)"
proof -
  let ?i = "initial_state msgId m"
  have b: "buffer ?i = []" by (simp add: initial_state_def)
  then have "10 \<notin> set (buffer ?i)" by simp
  from same_output_ended [OF fold_on_text_all [OF this, of parse "map toString chunks"]]
  have "writableEnded (run_data parse chunks ?i) =
        writableEnded (process_all parse (complete_lines chunks) ?i)"
    by (simp add: run_data_fold b complete_lines_def)
  then show ?thesis by (simp add: ended_all) (simp add: initial_state_def)
qed

text \<open>
  Claim C3, amended. Every streaming response begins with \<open>message_start\<close>, carrying the
  original model identifier and zero input and output tokens; it is written before any
  backend chunk is handled (with no chunks it is the whole response). If some complete
  line of the backend text carries a finish reason, the rest of the sequence is a run of
  events that are neither \<open>message_delta\<close> nor \<open>message_stop\<close>, then exactly one
  \<open>message_delta\<close>, then exactly one \<open>message_stop\<close>. If no complete line carries a
  finish reason, the backend stream ended (or failed) first, and the sequence has no
  \<open>message_delta\<close> and no \<open>message_stop\<close> at all.
\<close>

theorem stream_termination:
  "\<exists>body.
     written (handleStreaming parse now req chunks)
       = MessageStart (js ''msg_'' @ now) (model req) 0 0 # body
     \<and> written (handleStreaming parse now req []) = [MessageStart (js ''msg_'' @ now) (model req) 0 0]
     \<and> (if \<exists>l\<in>set (complete_lines chunks). finish_line parse l
        then \<exists>pre r n. body = pre @ [MessageDelta r n, MessageStop]
               \<and> list_all (\<lambda>e. \<not> terminal e) pre
        else list_all (\<lambda>e. \<not> terminal e) body)"
  using termination_by_flag [of parse now req chunks]
  unfolding ended_run_data .

theorem stream_termination_witness:
  \<open>(\<exists>l\<in>set (complete_lines
        [bytes ''data: {"choices":[{"delta":{"content":"Hel"}}]}\<newline>\<newline>da'',
         bytes ''ta: {"choices":[{"delta":{"content":"lo"}}]}\<newline>\<newline>data: {"choices":[{"delta":{},"finish_reason":"stop"}]}\<newline>\<newline>data: [DONE]\<newline>\<newline>'']).
      finish_line example_parse l)
   \<and> written (handleStreaming example_parse (js ''1'') example_req
     [bytes ''data: {"choices":[{"delta":{"content":"Hel"}}]}\<newline>\<newline>da'',
      bytes ''ta: {"choices":[{"delta":{"content":"lo"}}]}\<newline>\<newline>data: {"choices":[{"delta":{},"finish_reason":"stop"}]}\<newline>\<newline>data: [DONE]\<newline>\<newline>''])
   = [MessageStart (js ''msg_1'') (js ''claude-sonnet-x'') 0 0,
      ContentBlockStart 0 (TextBlock []),
      ContentBlockDelta 0 (TextDelta (js ''Hel'')),
      ContentBlockDelta 0 (TextDelta (js ''lo'')),
      ContentBlockStop 0,
      MessageDelta EndTurn 2,
      MessageStop]
   \<and> \<not> (\<exists>l\<in>set (complete_lines
        [bytes ''data: {"choices":[{"delta":{"content":"Hel"}}]}\<newline>\<newline>'']).
      finish_line example_parse l)\<close>
proof -
  let ?c = \<open>[bytes ''data: {"choices":[{"delta":{"content":"Hel"}}]}\<newline>\<newline>da'',
      bytes ''ta: {"choices":[{"delta":{"content":"lo"}}]}\<newline>\<newline>data: {"choices":[{"delta":{},"finish_reason":"stop"}]}\<newline>\<newline>data: [DONE]\<newline>\<newline>'']\<close>
  have h: "\<exists>l\<in>set (complete_lines ?c). finish_line example_parse l"
    by (simp add: complete_lines_def finish_line_def stream_eval)
  have n: \<open>\<not> (\<exists>l\<in>set (complete_lines
        [bytes ''data: {"choices":[{"delta":{"content":"Hel"}}]}\<newline>\<newline>'']).
      finish_line example_parse l)\<close>
    by (simp add: complete_lines_def finish_line_def stream_eval)
  have w: "written (handleStreaming example_parse (js ''1'') example_req ?c)
   = [MessageStart (js ''msg_1'') (js ''claude-sonnet-x'') 0 0,
      ContentBlockStart 0 (TextBlock []),
      ContentBlockDelta 0 (TextDelta (js ''Hel'')),
      ContentBlockDelta 0 (TextDelta (js ''lo'')),
      ContentBlockStop 0,
      MessageDelta EndTurn 2,
      MessageStop]"
    using stream_termination [of example_parse "js ''1''" example_req ?c] h
    by (simp add: stream_eval)
  show ?thesis using h n w by blast
qed

end
